theory Spec2Isabelle
  imports Complex_Main "HOL-Library.Multiset" "HOL-Library.Sublist"
begin

section \<open>Data model\<close>

text \<open>
  The class \<open>GitFile\<close> of \<^verbatim>\<open>igs.py\<close>: one entry of the status output. The status is the
  human-readable name the parser assigns (a Python string), the path is a string and
  \<open>staged\<close> tells the index side from the working-tree side.
\<close>

record GitFile =
  status :: string
  path :: string
  staged :: bool

definition key :: "GitFile \<Rightarrow> string \<times> bool" where
  "key f = (path f, staged f)"

datatype py_error = IndexError

text \<open>Python list indexing: a negative index counts from the end, out of range raises.\<close>

definition py_index :: "'a list \<Rightarrow> int \<Rightarrow> py_error + 'a" where
  "py_index xs i =
     (if 0 \<le> i \<and> i < int (length xs) then Inr (xs ! nat i)
      else if i < 0 \<and> - int (length xs) \<le> i then Inr (xs ! nat (int (length xs) + i))
      else Inl IndexError)"

section \<open>The flattened ordering\<close>

text \<open>
  \<open>_get_ordered_files\<close>: three list comprehensions over \<open>self.files\<close>, concatenated.
\<close>

definition get_ordered_files :: "GitFile list \<Rightarrow> GitFile list" where
  "get_ordered_files fs =
     (let staged_files = [f \<leftarrow> fs. staged f];
          unstaged_files = [f \<leftarrow> fs. \<not> staged f \<and> status f \<noteq> ''untracked''];
          untracked_files = [f \<leftarrow> fs. status f = ''untracked'']
      in staged_files @ unstaged_files @ untracked_files)"

section \<open>Program state\<close>

text \<open>
  The fields of \<open>GitTUI\<close> that the list, scroll, diff and watcher logic read or write.
  The curses window, the colour flag and the repository root only feed rendering and
  subprocess calls and are left out; \<open>watcher_proc\<close> records whether a watcher
  subprocess is present. Times are the seconds returned by \<open>time.time()\<close>, taken as
  real numbers.
\<close>

record GitTUI =
  cursor_pos :: int
  scroll_offset :: int
  files :: "GitFile list"
  mode :: string
  diff_content :: "string list"
  diff_scroll :: int
  status_message :: string
  watcher_proc :: bool
  last_refresh_time :: real
  events_during_cooldown :: bool

text \<open>The value of \<open>run_git_command\<close>: return code, standard output, standard error.\<close>

type_synonym git_result = "int \<times> string \<times> string"

section \<open>Parsing the porcelain status\<close>

text \<open>
  Strings are character lists. \<open>py_isspace\<close> is Python's whitespace test on the ASCII
  range, which is what \<open>str.strip()\<close> without arguments removes.
\<close>

definition py_isspace :: "char \<Rightarrow> bool" where
  "py_isspace c = ((of_char c :: nat) \<in> {9, 10, 11, 12, 13, 28, 29, 30, 31, 32})"

definition py_strip :: "string \<Rightarrow> string" where
  "py_strip s = rev (dropWhile py_isspace (rev (dropWhile py_isspace s)))"

text \<open>\<open>s.split(c)\<close> for a separator of one character.\<close>

primrec split_char :: "'a \<Rightarrow> 'a list \<Rightarrow> 'a list list" where
  "split_char c [] = [[]]"
| "split_char c (x # xs) =
     (if x = c then [] # split_char c xs
      else (case split_char c xs of [] \<Rightarrow> [[x]] | p # ps \<Rightarrow> (x # p) # ps))"

text \<open>
  \<open>s.split(sep)\<close> for a non-empty separator: the leftmost occurrences, not overlapping.
\<close>

fun split_str :: "'a list \<Rightarrow> 'a list \<Rightarrow> 'a list list" where
  "split_str sep [] = [[]]"
| "split_str sep (x # xs) =
     (if sep \<noteq> [] \<and> prefix sep (x # xs)
      then [] # split_str sep (drop (length sep) (x # xs))
      else (case split_str sep xs of [] \<Rightarrow> [[x]] | p # ps \<Rightarrow> (x # p) # ps))"

text \<open>\<open>sep in s\<close>: some suffix of \<open>s\<close> starts with \<open>sep\<close>.\<close>

primrec contains :: "'a list \<Rightarrow> 'a list \<Rightarrow> bool" where
  "contains sep [] = (sep = [])"
| "contains sep (x # xs) = (prefix sep (x # xs) \<or> contains sep xs)"

text \<open>\<open>_status_char_to_name\<close>: a dictionary lookup with the default \<open>'modified'\<close>.\<close>

definition status_mapping :: "(char \<times> string) list" where
  "status_mapping =
     [(CHR ''M'', ''modified''), (CHR ''A'', ''new file''), (CHR ''D'', ''deleted''),
      (CHR ''R'', ''renamed''), (CHR ''C'', ''copied''), (CHR ''U'', ''updated''),
      (CHR ''?'', ''untracked'')]"

definition status_char_to_name :: "char \<Rightarrow> string" where
  "status_char_to_name c =
     (case map_of status_mapping c of Some n \<Rightarrow> n | None \<Rightarrow> ''modified'')"

text \<open>
  The body of the loop of \<open>parse_git_status\<close> for one line: the records it appends.
\<close>

definition parse_line :: "string \<Rightarrow> GitFile list" where
  "parse_line line =
     (if line = [] \<or> length line < 3 then []
      else
        let x = line ! 0;
            y = line ! 1;
            path0 = drop 3 line;
            p = (if contains '' -> '' path0 then last (split_str '' -> '' path0) else path0)
        in (if x \<noteq> CHR '' '' \<and> x \<noteq> CHR ''?''
            then [\<lparr>status = status_char_to_name x, path = p, staged = True\<rparr>] else [])
           @ (if y \<noteq> CHR '' '' \<or> x = CHR ''?''
              then [\<lparr>status = (if x = CHR ''?'' then ''untracked'' else status_char_to_name y),
                     path = p, staged = False\<rparr>]
              else []))"

primrec parse_lines :: "string list \<Rightarrow> GitFile list" where
  "parse_lines [] = []"
| "parse_lines (l # ls) = parse_line l @ parse_lines ls"

text \<open>The record list that a successful status query with output \<open>stdout\<close> yields.\<close>

definition parse_stdout :: "string \<Rightarrow> GitFile list" where
  "parse_stdout stdout =
     (if py_strip stdout = [] then [] else parse_lines (split_char CHR 0x0A stdout))"

definition parse_git_status :: "GitTUI \<Rightarrow> git_result \<Rightarrow> GitTUI" where
  "parse_git_status s r =
     (case r of (returncode, stdout, stderr) \<Rightarrow>
        if returncode \<noteq> 0 then s\<lparr>status_message := ''Error: '' @ stderr\<rparr>
        else s\<lparr>files := parse_stdout stdout\<rparr>)"

section \<open>Staging commands\<close>

definition stage_file :: "GitTUI \<Rightarrow> GitFile \<Rightarrow> git_result \<Rightarrow> GitTUI" where
  "stage_file s file r =
     (case r of (returncode, stdout, stderr) \<Rightarrow>
        if returncode = 0 then s\<lparr>status_message := ''Staged: '' @ path file\<rparr>
        else s\<lparr>status_message := ''Error staging: '' @ stderr\<rparr>)"

definition unstage_file :: "GitTUI \<Rightarrow> GitFile \<Rightarrow> git_result \<Rightarrow> GitTUI" where
  "unstage_file s file r =
     (case r of (returncode, stdout, stderr) \<Rightarrow>
        if returncode = 0 then s\<lparr>status_message := ''Unstaged: '' @ path file\<rparr>
        else s\<lparr>status_message := ''Error unstaging: '' @ stderr\<rparr>)"

definition discard_changes :: "GitTUI \<Rightarrow> GitFile \<Rightarrow> git_result \<Rightarrow> GitTUI" where
  "discard_changes s file r =
     (case r of (returncode, stdout, stderr) \<Rightarrow>
        if returncode = 0 then s\<lparr>status_message := ''Discarded changes: '' @ path file\<rparr>
        else s\<lparr>status_message := ''Error discarding: '' @ stderr\<rparr>)"

section \<open>Cursor operations on the list\<close>

text \<open>
  What the program receives from outside during one key press: the terminal height of
  \<open>getmaxyx\<close>, the result of the staging, restore or commit command, the result of the
  status query, the lines \<open>get_file_diff\<close> returns, the answer of the confirm dialog,
  the exception text when a subprocess cannot be started, and the commit message read
  back from the editor.
\<close>

record env =
  height :: int
  cmd_result :: git_result
  status_result :: git_result
  file_diff :: "string list"
  confirm :: bool
  subprocess_error :: "string option"
  commit_msg :: string

text \<open>
  The search loops \<open>for i, f in enumerate(ordered): if f.key() == k: ...\<close>: the first
  position whose key is \<open>k\<close>, if any.
\<close>

primrec find_key :: "string \<times> bool \<Rightarrow> GitFile list \<Rightarrow> nat option" where
  "find_key k [] = None"
| "find_key k (f # fs) = (if key f = k then Some 0 else map_option Suc (find_key k fs))"

definition refresh_status :: "GitTUI \<Rightarrow> git_result \<Rightarrow> py_error + GitTUI" where
  "refresh_status s r =
     (let old_files = get_ordered_files (files s) in
      case (if cursor_pos s < int (length old_files)
            then map_sum id (\<lambda>f. Some (key f)) (py_index old_files (cursor_pos s))
            else Inr None) of
        Inl err \<Rightarrow> Inl err
      | Inr old_key \<Rightarrow>
          let s1 = parse_git_status s r;
              s2 = (case old_key of
                      Some k \<Rightarrow>
                        let ordered = get_ordered_files (files s1) in
                        (case find_key k ordered of
                           Some i \<Rightarrow> s1\<lparr>cursor_pos := int i\<rparr>
                         | None \<Rightarrow>
                             s1\<lparr>cursor_pos :=
                                  max 0 (min (cursor_pos s1) (int (length ordered) - 1))\<rparr>)
                    | None \<Rightarrow> s1\<lparr>cursor_pos := 0\<rparr>)
          in Inr (s2\<lparr>status_message := ''Refreshed''\<rparr>))"

definition toggle_stage_current_file :: "GitTUI \<Rightarrow> env \<Rightarrow> py_error + GitTUI" where
  "toggle_stage_current_file s e =
     (let ordered = get_ordered_files (files s) in
      if cursor_pos s \<ge> int (length ordered) then Inr s
      else
        case py_index ordered (cursor_pos s) of
          Inl err \<Rightarrow> Inl err
        | Inr file \<Rightarrow>
            (case (if cursor_pos s + 1 < int (length ordered)
                   then map_sum id (\<lambda>f. Some (key f)) (py_index ordered (cursor_pos s + 1))
                   else Inr None) of
               Inl err \<Rightarrow> Inl err
             | Inr next_file_key \<Rightarrow>
                 let s1 = (if staged file then unstage_file s file (cmd_result e)
                           else stage_file s file (cmd_result e));
                     s2 = parse_git_status s1 (status_result e);
                     ordered2 = get_ordered_files (files s2)
                 in if length ordered2 = 0 then Inr (s2\<lparr>cursor_pos := 0\<rparr>)
                    else
                      (case (case next_file_key of
                               None \<Rightarrow> None
                             | Some k \<Rightarrow> find_key k ordered2) of
                         Some i \<Rightarrow> Inr (s2\<lparr>cursor_pos := int i\<rparr>)
                       | None \<Rightarrow>
                           Inr (s2\<lparr>cursor_pos :=
                                     min (cursor_pos s2) (int (length ordered2) - 1)\<rparr>))))"

definition chunk_stage_current_file :: "GitTUI \<Rightarrow> env \<Rightarrow> py_error + GitTUI" where
  "chunk_stage_current_file s e =
     (let ordered = get_ordered_files (files s) in
      if cursor_pos s \<ge> int (length ordered) then Inr s
      else
        case py_index ordered (cursor_pos s) of
          Inl err \<Rightarrow> Inl err
        | Inr file \<Rightarrow>
            if staged file
            then Inr (s\<lparr>status_message := ''File is already staged (unstage first)''\<rparr>)
            else if status file = ''untracked''
            then Inr (s\<lparr>status_message := ''Cannot chunk-stage untracked file''\<rparr>)
            else
              (case subprocess_error e of
                 Some msg \<Rightarrow>
                   Inr (s\<lparr>status_message := ''Error running git add -p: '' @ msg\<rparr>)
               | None \<Rightarrow>
                   let s1 = parse_git_status s (status_result e);
                       s2 = s1\<lparr>cursor_pos :=
                               min (cursor_pos s1)
                                 (max 0 (int (length (get_ordered_files (files s1))) - 1))\<rparr>
                   in Inr (s2\<lparr>status_message := ''Chunk staging done: '' @ path file\<rparr>)))"

text \<open>Decimal digits of a number, for the message of \<open>_stage_all\<close>.\<close>

fun str_nat :: "nat \<Rightarrow> string" where
  "str_nat n =
     (if n < 10 then [char_of (48 + n)]
      else str_nat (n div 10) @ [char_of (48 + n mod 10)])"

declare str_nat.simps [simp del]

definition stage_all :: "GitTUI \<Rightarrow> env \<Rightarrow> GitTUI" where
  "stage_all s e =
     (let modified = [f \<leftarrow> files s. \<not> staged f \<and> status f \<noteq> ''untracked''] in
      if modified = [] then s\<lparr>status_message := ''No modified files to stage''\<rparr>
      else
        let s1 = parse_git_status s (status_result e);
            s2 = s1\<lparr>cursor_pos := 0\<rparr>
        in s2\<lparr>status_message := ''Staged '' @ str_nat (length modified) @ '' file(s)''\<rparr>)"

definition discard_current_file :: "GitTUI \<Rightarrow> env \<Rightarrow> py_error + GitTUI" where
  "discard_current_file s e =
     (let ordered = get_ordered_files (files s) in
      if cursor_pos s \<ge> int (length ordered) then Inr s
      else
        case py_index ordered (cursor_pos s) of
          Inl err \<Rightarrow> Inl err
        | Inr file \<Rightarrow>
            if staged file
            then Inr (s\<lparr>status_message := ''Cannot discard staged changes (unstage first)''\<rparr>)
            else if status file = ''untracked''
            then Inr (s\<lparr>status_message := ''Cannot discard untracked file''\<rparr>)
            else if \<not> confirm e then Inr (s\<lparr>status_message := ''Cancelled''\<rparr>)
            else
              let s1 = discard_changes s file (cmd_result e);
                  s2 = parse_git_status s1 (status_result e);
                  ordered2 = get_ordered_files (files s2)
              in if length ordered2 = 0 then Inr (s2\<lparr>cursor_pos := 0\<rparr>)
                 else Inr (s2\<lparr>cursor_pos :=
                                min (cursor_pos s2) (int (length ordered2) - 1)\<rparr>))"

definition show_commit_dialog :: "GitTUI \<Rightarrow> env \<Rightarrow> GitTUI" where
  "show_commit_dialog s e =
     (let staged_files = [f \<leftarrow> files s. staged f] in
      if staged_files = [] then s\<lparr>status_message := ''No files staged for commit''\<rparr>
      else
        case subprocess_error e of
          Some msg \<Rightarrow> s\<lparr>status_message := ''Error opening editor: '' @ msg\<rparr>
        | None \<Rightarrow>
            if commit_msg e = [] then s\<lparr>status_message := ''Commit cancelled (empty message)''\<rparr>
            else
              (case cmd_result e of (returncode, stdout, stderr) \<Rightarrow>
                 if returncode = 0
                 then (parse_git_status (s\<lparr>status_message := ''Commit successful!''\<rparr>)
                         (status_result e))\<lparr>cursor_pos := 0\<rparr>
                 else s\<lparr>status_message := ''Commit failed: '' @ stderr\<rparr>))"

text \<open>The key codes of curses and the characters the handlers compare with.\<close>

definition KEY_DOWN :: int where
  "KEY_DOWN = 258"

definition KEY_UP :: int where
  "KEY_UP = 259"

definition KEY_NPAGE :: int where
  "KEY_NPAGE = 338"

definition KEY_PPAGE :: int where
  "KEY_PPAGE = 339"

definition KEY_ENTER :: int where
  "KEY_ENTER = 343"

definition ord :: "char \<Rightarrow> int" where
  "ord c = of_char c"

text \<open>
  \<open>_handle_list_input\<close>: the flag is the value returned to the main loop (\<open>False\<close>
  ends it).
\<close>

definition handle_list_input :: "GitTUI \<Rightarrow> int \<Rightarrow> env \<Rightarrow> py_error + bool \<times> GitTUI" where
  "handle_list_input s k e =
     (if k = ord CHR ''q'' \<or> k = ord CHR ''Q'' then Inr (False, s)
      else if k = KEY_UP then
        Inr (True, if cursor_pos s > 0
                   then s\<lparr>cursor_pos := cursor_pos s - 1, status_message := []\<rparr> else s)
      else if k = KEY_DOWN then
        Inr (True, if cursor_pos s < int (length (files s)) - 1
                   then s\<lparr>cursor_pos := cursor_pos s + 1, status_message := []\<rparr> else s)
      else if k = KEY_PPAGE then
        (let page_size = height e - 4 in
         Inr (True, s\<lparr>cursor_pos := max 0 (cursor_pos s - page_size), status_message := []\<rparr>))
      else if k = KEY_NPAGE then
        (let page_size = height e - 4 in
         Inr (True, s\<lparr>cursor_pos := min (int (length (files s)) - 1) (cursor_pos s + page_size),
                       status_message := []\<rparr>))
      else if k = ord CHR '' '' then
        map_sum id (Pair True) (toggle_stage_current_file s e)
      else if k = ord CHR ''d'' \<or> k = ord CHR ''D'' \<or> k = ord (CHR 0x0A) \<or> k = KEY_ENTER then
        (if cursor_pos s < int (length (files s)) then
           (let ordered = get_ordered_files (files s) in
            if cursor_pos s < int (length ordered) then
              (case py_index ordered (cursor_pos s) of
                 Inl err \<Rightarrow> Inl err
               | Inr file \<Rightarrow>
                   Inr (True, s\<lparr>diff_content := file_diff e, diff_scroll := 0,
                                 mode := ''diff'', status_message := []\<rparr>))
            else Inr (True, s))
         else Inr (True, s))
      else if k = ord CHR ''c'' \<or> k = ord CHR ''C'' then Inr (True, show_commit_dialog s e)
      else if k = ord CHR ''r'' \<or> k = ord CHR ''R'' then
        map_sum id (Pair True) (refresh_status s (status_result e))
      else if k = ord CHR ''a'' \<or> k = ord CHR ''A'' then Inr (True, stage_all s e)
      else if k = ord CHR ''p'' \<or> k = ord CHR ''P'' then
        map_sum id (Pair True) (chunk_stage_current_file s e)
      else if k = ord CHR ''u'' \<or> k = ord CHR ''U'' then
        map_sum id (Pair True) (discard_current_file s e)
      else Inr (True, s))"

section \<open>The diff view\<close>

definition toggle_stage_in_diff :: "GitTUI \<Rightarrow> env \<Rightarrow> py_error + GitTUI" where
  "toggle_stage_in_diff s e =
     (let ordered = get_ordered_files (files s) in
      if cursor_pos s \<ge> int (length ordered) then Inr (s\<lparr>mode := ''list''\<rparr>)
      else
        case py_index ordered (cursor_pos s) of
          Inl err \<Rightarrow> Inl err
        | Inr file \<Rightarrow>
            let current_path = path file;
                was_staged = staged file;
                s1 = (if was_staged then unstage_file s file (cmd_result e)
                      else stage_file s file (cmd_result e));
                s2 = parse_git_status s1 (status_result e);
                ordered2 = get_ordered_files (files s2);
                new_staged = (\<not> was_staged)
            in (case find_key (current_path, new_staged) ordered2 of
                  Some i \<Rightarrow>
                    Inr (s2\<lparr>cursor_pos := int i, diff_content := file_diff e, diff_scroll := 0\<rparr>)
                | None \<Rightarrow>
                    Inr (s2\<lparr>cursor_pos :=
                              max 0 (min (cursor_pos s2) (int (length ordered2) - 1)),
                            mode := ''list''\<rparr>)))"

definition handle_diff_input :: "GitTUI \<Rightarrow> int \<Rightarrow> env \<Rightarrow> py_error + bool \<times> GitTUI" where
  "handle_diff_input s k e =
     (let viewable_lines = height e - 3 in
      if k = ord CHR ''q'' \<or> k = ord CHR ''Q'' \<or> k = 27 then
        Inr (True, s\<lparr>mode := ''list'', status_message := []\<rparr>)
      else if k = KEY_UP then
        Inr (True, s\<lparr>diff_scroll := max 0 (diff_scroll s - 1)\<rparr>)
      else if k = KEY_DOWN then
        (let max_scroll = max 0 (int (length (diff_content s)) - viewable_lines) in
         Inr (True, s\<lparr>diff_scroll := min (diff_scroll s + 1) max_scroll\<rparr>))
      else if k = ord CHR '' '' then
        map_sum id (Pair True) (toggle_stage_in_diff s e)
      else if k = KEY_PPAGE then
        Inr (True, s\<lparr>diff_scroll := max 0 (diff_scroll s - viewable_lines)\<rparr>)
      else if k = KEY_NPAGE then
        (let max_scroll = max 0 (int (length (diff_content s)) - viewable_lines) in
         Inr (True, s\<lparr>diff_scroll := min (diff_scroll s + viewable_lines) max_scroll\<rparr>))
      else Inr (True, s))"

text \<open>
  \<open>draw_diff_view\<close>: of the state it only writes the clamped \<open>diff_scroll\<close>; the second
  argument is the terminal height.
\<close>

definition draw_diff_view :: "GitTUI \<Rightarrow> int \<Rightarrow> GitTUI" where
  "draw_diff_view s h =
     (let visible_height = h - 3;
          max_scroll = max 0 (int (length (diff_content s)) - visible_height)
      in s\<lparr>diff_scroll := max 0 (min (diff_scroll s) max_scroll)\<rparr>)"

section \<open>The list view and its scroll offset\<close>

text \<open>
  A display line of \<open>draw_file_list\<close>: its content (a heading or blank text, or a file),
  the file index or \<open>None\<close>, and the line of the section heading or \<open>None\<close>. The
  rendering attribute is left out.
\<close>

type_synonym display_line = "(string + GitFile) \<times> int option \<times> int option"

text \<open>
  One of the loops \<open>for f in group: display_lines.append((f, None, file_index,
  section_start)); file_index += 1\<close>, started at \<open>file_index\<close>.
\<close>

primrec file_lines :: "GitFile list \<Rightarrow> int \<Rightarrow> int \<Rightarrow> display_line list" where
  "file_lines [] file_index section_start = []"
| "file_lines (f # fs) file_index section_start =
     (Inr f, Some file_index, Some section_start) # file_lines fs (file_index + 1) section_start"

definition display_lines :: "GitFile list \<Rightarrow> display_line list" where
  "display_lines fs =
     (let staged_files = [f \<leftarrow> fs. staged f];
          unstaged_files = [f \<leftarrow> fs. \<not> staged f \<and> status f \<noteq> ''untracked''];
          untracked_files = [f \<leftarrow> fs. status f = ''untracked''];
          d1 = [(Inl ''Changes to be committed:'', None, None)]
               @ file_lines staged_files 0 0
               @ [(Inl [], None, None)];
          d2 = d1 @ [(Inl ''Changes not staged for commit:'', None, None)]
               @ file_lines unstaged_files (int (length staged_files)) (int (length d1))
               @ [(Inl [], None, None)];
          d3 = d2 @ [(Inl ''Untracked files:'', None, None)]
               @ file_lines untracked_files
                   (int (length staged_files) + int (length unstaged_files)) (int (length d2))
      in d3)"

text \<open>
  The loop that looks for the cursor: the first line whose file index is the cursor
  position gives \<open>(cursor_display_line, cursor_section_start)\<close>; both stay 0 when no
  line matches. The third argument is the index of the head of the list.
\<close>

fun find_cursor :: "display_line list \<Rightarrow> int \<Rightarrow> int \<Rightarrow> int \<times> int" where
  "find_cursor [] cp i = (0, 0)"
| "find_cursor ((content, fidx, section_start) # ls) cp i =
     (if fidx = Some cp
      then (i, (case section_start of Some sec \<Rightarrow> sec | None \<Rightarrow> i))
      else find_cursor ls cp (i + 1))"

text \<open>
  \<open>draw_file_list\<close>: of the state it only writes \<open>scroll_offset\<close>; the second argument
  is the terminal height.
\<close>

definition draw_file_list :: "GitTUI \<Rightarrow> int \<Rightarrow> GitTUI" where
  "draw_file_list s h =
     (let visible_height = h - 4;
          lines = display_lines (files s);
          (cursor_display_line, cursor_section_start) = find_cursor lines (cursor_pos s) 0;
          off = (if cursor_display_line < scroll_offset s then cursor_section_start
                 else if cursor_display_line \<ge> scroll_offset s + visible_height
                 then cursor_display_line - visible_height + 1
                 else scroll_offset s)
      in s\<lparr>scroll_offset := max 0 (min off (max 0 (int (length lines) - visible_height)))\<rparr>)"

section \<open>The change watcher\<close>

definition cooldown :: real where
  "cooldown = 0.2"

text \<open>
  \<open>_check_watcher\<close>. The arguments after the state are the first reading of the clock
  (\<open>now\<close>), whether the watcher's pipe had data (\<open>has_events\<close>), the result of the
  status query should a refresh run, and the second reading of the clock, taken after
  the refresh. The flag of the result tells whether \<open>_refresh_status\<close> was called.
\<close>

definition check_watcher ::
  "GitTUI \<Rightarrow> real \<Rightarrow> bool \<Rightarrow> git_result \<Rightarrow> real \<Rightarrow> py_error + bool \<times> GitTUI" where
  "check_watcher s now has_events r now2 =
     (if \<not> watcher_proc s then Inr (False, s)
      else
        let in_cooldown = (now - last_refresh_time s < cooldown) in
        if has_events then
          (if \<not> in_cooldown then
             (case refresh_status s r of
                Inl err \<Rightarrow> Inl err
              | Inr s1 \<Rightarrow>
                  Inr (True, s1\<lparr>last_refresh_time := now2, events_during_cooldown := False\<rparr>))
           else Inr (False, s\<lparr>events_during_cooldown := True\<rparr>))
        else if events_during_cooldown s \<and> \<not> in_cooldown then
          (case refresh_status s r of
             Inl err \<Rightarrow> Inl err
           | Inr s1 \<Rightarrow>
               Inr (True, s1\<lparr>last_refresh_time := now2, events_during_cooldown := False\<rparr>))
        else Inr (False, s))"

section \<open>Predicates and example inputs of the verification\<close>

text \<open>
  No record is staged and untracked at once: the condition under which the three
  filters of the flattened ordering do not overlap.
\<close>

definition wf_files :: "GitFile list \<Rightarrow> bool" where
  "wf_files fs = list_all (\<lambda>f. \<not> (staged f \<and> status f = ''untracked'')) fs"

text \<open>A status output of two lines, and a state holding the records it parses to.\<close>

definition example_stdout :: string where
  "example_stdout = ''MM a.txt'' @ [CHR 0x0A] @ ''?? b.txt'' @ [CHR 0x0A]"

definition example_state :: GitTUI where
  "example_state =
     \<lparr>cursor_pos = 1, scroll_offset = 0,
      files = [\<lparr>status = ''modified'', path = ''a.txt'', staged = True\<rparr>,
               \<lparr>status = ''modified'', path = ''a.txt'', staged = False\<rparr>,
               \<lparr>status = ''untracked'', path = ''b.txt'', staged = False\<rparr>],
      mode = ''list'', diff_content = [], diff_scroll = 0, status_message = [],
      watcher_proc = True, last_refresh_time = 0, events_during_cooldown = False\<rparr>"

text \<open>
  The cursor invariant of the list: inside the record list when there is one, and 0
  when the list is empty.
\<close>

definition cursor_valid :: "GitTUI \<Rightarrow> bool" where
  "cursor_valid s =
     (if files s = [] then cursor_pos s = 0
      else 0 \<le> cursor_pos s \<and> cursor_pos s < int (length (files s)))"


text \<open>
  Two more status outputs: the file \<open>a.txt\<close> with only an unstaged change, and
  \<open>a.txt\<close> fully staged beside the untracked \<open>b.txt\<close>; and what the outside world
  answers while a key is handled, the status query returning the second output.
\<close>

definition example_stdout_unstaged :: string where
  "example_stdout_unstaged = '' M a.txt'' @ [CHR 0x0A]"

definition example_stdout_staged :: string where
  "example_stdout_staged = ''M  a.txt'' @ [CHR 0x0A] @ ''?? b.txt'' @ [CHR 0x0A]"

definition example_env :: env where
  "example_env =
     \<lparr>height = 24, cmd_result = (0, [], []),
      status_result = (0, example_stdout_staged, []),
      file_diff = [], confirm = True, subprocess_error = None, commit_msg = ''msg''\<rparr>"


text \<open>
  A diff of forty lines scrolled to line 10, which is inside the bound of a terminal of
  height 24, and the same key press handled after the terminal grew to height 60.
\<close>

definition diff_state :: GitTUI where
  "diff_state = example_state\<lparr>mode := ''diff'', diff_content := replicate 40 ''+line'',
                               diff_scroll := 10\<rparr>"

definition tall_env :: env where
  "tall_env = example_env\<lparr>height := 60\<rparr>"

text \<open>The bound of the diff scroll for a terminal of height \<open>h\<close>.\<close>

definition scroll_in_range :: "GitTUI \<Rightarrow> int \<Rightarrow> bool" where
  "scroll_in_range s h =
     (0 \<le> diff_scroll s \<and> diff_scroll s \<le> max 0 (int (length (diff_content s)) - (h - 3)))"


text \<open>The texts of the three section headings of the list view.\<close>

definition headings :: "string set" where
  "headings = {''Changes to be committed:'', ''Changes not staged for commit:'',
               ''Untracked files:''}"

text \<open>
  The list shrank to two unstaged files while the scroll offset still is the 8 of the
  longer list shown before.
\<close>

definition shrunk_state :: GitTUI where
  "shrunk_state = example_state
     \<lparr>cursor_pos := 0, scroll_offset := 8,
      files := [\<lparr>status = ''modified'', path = ''a.txt'', staged = False\<rparr>,
                \<lparr>status = ''modified'', path = ''b.txt'', staged = False\<rparr>]\<rparr>"

text \<open>
  The three records of \<open>example_state\<close> in a terminal of height 6 (two visible lines),
  scrolled to the last section, with the cursor moved up into the second section.
\<close>

definition scrolled_state :: GitTUI where
  "scrolled_state = example_state\<lparr>scroll_offset := 6\<rparr>"

text \<open>
  Twelve staged files in a terminal of height 10 (six visible lines): the cursor on
  the ninth file, at the top of the window, and the state after one key up.
\<close>

definition twelve_files :: "GitFile list" where
  "twelve_files =
     map (\<lambda>p. \<lparr>status = ''modified'', path = p, staged = True\<rparr>)
       [''f00'', ''f01'', ''f02'', ''f03'', ''f04'', ''f05'',
        ''f06'', ''f07'', ''f08'', ''f09'', ''f10'', ''f11'']"

definition top_of_window_state :: GitTUI where
  "top_of_window_state = example_state\<lparr>cursor_pos := 8, scroll_offset := 9, files := twelve_files\<rparr>"

definition small_env :: env where
  "small_env = example_env\<lparr>height := 10\<rparr>"


text \<open>
  The invariant of the list model: the record list is one the parser can produce and
  the cursor is valid for it. The state before any change is found satisfies it.
\<close>

definition list_inv :: "GitTUI \<Rightarrow> bool" where
  "list_inv s = (wf_files (files s) \<and> cursor_valid s)"

definition empty_state :: GitTUI where
  "empty_state = example_state\<lparr>cursor_pos := 0, files := []\<rparr>"


text \<open>A key handler returned, and the state it returned satisfies the invariant.\<close>

definition list_ok :: "py_error + bool \<times> GitTUI \<Rightarrow> bool" where
  "list_ok x = (\<exists>b s'. x = Inr (b, s') \<and> list_inv s')"

text \<open>
  A run of the watcher: one tick per call of \<open>_check_watcher\<close>, holding the two clock
  readings, the event observation and the answer of the status query. The run returns
  the times (first clock reading) of the checks that refreshed, and the last state.
\<close>

type_synonym tick = "real \<times> bool \<times> git_result \<times> real"

fun run_watcher :: "GitTUI \<Rightarrow> tick list \<Rightarrow> py_error + real list \<times> GitTUI" where
  "run_watcher s [] = Inr ([], s)"
| "run_watcher s ((now, has_events, r, now2) # ts) =
     (case check_watcher s now has_events r now2 of
        Inl err \<Rightarrow> Inl err
      | Inr (refreshed, s1) \<Rightarrow>
          (case run_watcher s1 ts of
             Inl err \<Rightarrow> Inl err
           | Inr (rs, s2) \<Rightarrow> Inr ((if refreshed then [now] else []) @ rs, s2)))"

text \<open>The clock never goes back: from \<open>t\<close> on, every reading is at least the one before.\<close>

fun ticks_increasing :: "real \<Rightarrow> tick list \<Rightarrow> bool" where
  "ticks_increasing t [] = True"
| "ticks_increasing t ((now, has_events, r, now2) # ts) =
     (t \<le> now \<and> now \<le> now2 \<and> ticks_increasing now2 ts)"

text \<open>
  Three checks: events at 1.0 s (refreshed at once), events again at 1.1 s (inside the
  cooldown), and the next check only at 2.0 s.
\<close>

definition late_ticks :: "tick list" where
  "late_ticks =
     [(1, True, (0, example_stdout, []), 1),
      (1.1, True, (0, example_stdout, []), 1.1),
      (2, False, (0, example_stdout, []), 2)]"

text \<open>The example state one refresh later: the last refresh was at 1.0 s.\<close>

definition cooling_state :: GitTUI where
  "cooling_state = example_state\<lparr>last_refresh_time := 1\<rparr>"

section \<open>The list view of the older script\<close>

text \<open>
  The older script \<^verbatim>\<open>git-tui.py\<close> builds the display without section starts: a group is
  shown only when it has files, an empty record list gives one line of text, two lines
  are reserved instead of four, and scrolling up puts the cursor's own line on top.
\<close>

type_synonym legacy_line = "(string + GitFile) \<times> int option"

primrec legacy_file_lines :: "GitFile list \<Rightarrow> int \<Rightarrow> legacy_line list" where
  "legacy_file_lines [] file_index = []"
| "legacy_file_lines (f # fs) file_index =
     (Inr f, Some file_index) # legacy_file_lines fs (file_index + 1)"

definition legacy_display_lines :: "GitFile list \<Rightarrow> legacy_line list" where
  "legacy_display_lines fs =
     (let staged_files = [f \<leftarrow> fs. staged f];
          unstaged_files = [f \<leftarrow> fs. \<not> staged f \<and> status f \<noteq> ''untracked''];
          untracked_files = [f \<leftarrow> fs. status f = ''untracked''];
          d1 = (if staged_files \<noteq> []
                then [(Inl ''Changes to be committed:'', None)]
                     @ legacy_file_lines staged_files 0 @ [(Inl [], None)]
                else []);
          d2 = d1 @ (if unstaged_files \<noteq> []
                     then [(Inl ''Changes not staged for commit:'', None)]
                          @ legacy_file_lines unstaged_files (int (length staged_files))
                          @ [(Inl [], None)]
                     else []);
          d3 = d2 @ (if untracked_files \<noteq> []
                     then [(Inl ''Untracked files:'', None)]
                          @ legacy_file_lines untracked_files
                              (int (length staged_files) + int (length unstaged_files))
                     else []);
          d4 = d3 @ (if fs = [] then [(Inl ''No changes. Working directory clean.'', None)]
                     else [])
      in d4)"

fun legacy_find_cursor :: "legacy_line list \<Rightarrow> int \<Rightarrow> int \<Rightarrow> int" where
  "legacy_find_cursor [] cp i = 0"
| "legacy_find_cursor ((content, fidx) # ls) cp i =
     (if fidx = Some cp then i else legacy_find_cursor ls cp (i + 1))"

definition legacy_draw_file_list :: "GitTUI \<Rightarrow> int \<Rightarrow> GitTUI" where
  "legacy_draw_file_list s h =
     (let visible_height = h - 2;
          lines = legacy_display_lines (files s);
          cursor_display_line = legacy_find_cursor lines (cursor_pos s) 0;
          off = (if cursor_display_line < scroll_offset s then cursor_display_line
                 else if cursor_display_line \<ge> scroll_offset s + visible_height
                 then cursor_display_line - visible_height + 1
                 else scroll_offset s)
      in s\<lparr>scroll_offset := max 0 (min off (max 0 (int (length lines) - visible_height)))\<rparr>)"

section \<open>Facts about the parser and the flattened ordering\<close>

lemma status_char_to_name_tracked:
  "c \<noteq> CHR ''?'' \<Longrightarrow> status_char_to_name c \<noteq> ''untracked''"
  by (simp add: status_char_to_name_def status_mapping_def)

lemma wf_files_append: "wf_files (xs @ ys) = (wf_files xs \<and> wf_files ys)"
  by (simp add: wf_files_def)

lemma wf_parse_line: "wf_files (parse_line l)"
  by (simp add: parse_line_def wf_files_def Let_def status_char_to_name_tracked)

lemma wf_parse_lines: "wf_files (parse_lines ls)"
  by (induction ls) (simp_all add: wf_files_append wf_parse_line, simp add: wf_files_def)

lemma wf_parse_stdout: "wf_files (parse_stdout out)"
  by (simp add: parse_stdout_def wf_parse_lines) (simp add: wf_files_def)

lemma wf_parse_git_status: "wf_files (files s) \<Longrightarrow> wf_files (files (parse_git_status s r))"
  by (cases r) (simp add: parse_git_status_def wf_parse_stdout)

lemma mset_get_ordered_files:
  "wf_files fs \<Longrightarrow> mset (get_ordered_files fs) = mset fs"
  by (induction fs) (auto simp: get_ordered_files_def wf_files_def)

lemma length_get_ordered_files:
  "wf_files fs \<Longrightarrow> length (get_ordered_files fs) = length fs"
  using mset_get_ordered_files [of fs] by (metis size_mset)

lemma length_get_ordered_files_ge: "length fs \<le> length (get_ordered_files fs)"
  by (induction fs) (auto simp: get_ordered_files_def)

lemma get_ordered_files_Nil [simp]: "get_ordered_files [] = []"
  by (simp add: get_ordered_files_def)

lemma get_ordered_files_eq_Nil: "get_ordered_files fs = [] \<longleftrightarrow> fs = []"
  using length_get_ordered_files_ge [of fs] by (cases fs) auto

lemma parse_example_stdout:
  "parse_stdout example_stdout =
     [\<lparr>status = ''modified'', path = ''a.txt'', staged = True\<rparr>,
      \<lparr>status = ''modified'', path = ''a.txt'', staged = False\<rparr>,
      \<lparr>status = ''untracked'', path = ''b.txt'', staged = False\<rparr>]"
  by (simp add: example_stdout_def parse_stdout_def parse_line_def py_strip_def py_isspace_def
      status_char_to_name_def status_mapping_def Let_def)

lemmas parser_defs = parse_stdout_def parse_line_def py_strip_def py_isspace_def
      status_char_to_name_def status_mapping_def Let_def

lemma parse_example_stdout_unstaged:
  "parse_stdout example_stdout_unstaged =
     [\<lparr>status = ''modified'', path = ''a.txt'', staged = False\<rparr>]"
  by (simp add: parser_defs example_stdout_unstaged_def)

lemma parse_example_stdout_staged:
  "parse_stdout example_stdout_staged =
     [\<lparr>status = ''modified'', path = ''a.txt'', staged = True\<rparr>,
      \<lparr>status = ''untracked'', path = ''b.txt'', staged = False\<rparr>]"
  by (simp add: parser_defs example_stdout_staged_def)

section \<open>Facts about the cursor search and the state updates\<close>

lemma find_key_Some:
  "find_key k fs = Some i \<Longrightarrow>
     i < length fs \<and> key (fs ! i) = k \<and> (\<forall>j < i. key (fs ! j) \<noteq> k)"
proof (induction fs arbitrary: i)
  case Nil
  then show ?case by simp
next
  case (Cons f fs)
  show ?case
  proof (cases "key f = k")
    case True
    with Cons.prems show ?thesis by simp
  next
    case False
    with Cons.prems obtain i' where i': "find_key k fs = Some i'" "i = Suc i'"
      by auto
    from Cons.IH [OF i'(1)] False i'(2) show ?thesis
      by (auto simp: nth_Cons split: nat.splits)
  qed
qed

lemma find_key_None: "find_key k fs = None \<longleftrightarrow> k \<notin> key ` set fs"
  by (induction fs) auto

lemma py_index_in_range:
  "0 \<le> i \<Longrightarrow> i < int (length xs) \<Longrightarrow> py_index xs i = Inr (xs ! nat i)"
  by (simp add: py_index_def)

lemma parse_git_status_cursor_pos [simp]:
  "cursor_pos (parse_git_status s r) = cursor_pos s"
  by (cases r) (simp add: parse_git_status_def)

lemma parse_git_status_files:
  "files (parse_git_status s r) =
     (case r of (returncode, out, err) \<Rightarrow> if returncode = 0 then parse_stdout out else files s)"
  by (cases r) (simp add: parse_git_status_def)

lemma length_ordered_parse_git_status:
  "files (parse_git_status s r) \<noteq> files s \<Longrightarrow>
     length (get_ordered_files (files (parse_git_status s r))) = length (files (parse_git_status s r))"
  by (cases r) (auto simp: parse_git_status_def length_get_ordered_files wf_parse_stdout split: if_splits)

lemma stage_file_fields [simp]:
  "files (stage_file s f r) = files s"
  "cursor_pos (stage_file s f r) = cursor_pos s"
  by (cases r; simp add: stage_file_def)+

lemma unstage_file_fields [simp]:
  "files (unstage_file s f r) = files s"
  "cursor_pos (unstage_file s f r) = cursor_pos s"
  by (cases r; simp add: unstage_file_def)+

section \<open>Facts about the diff view\<close>

lemmas key_defs = KEY_UP_def KEY_DOWN_def KEY_PPAGE_def KEY_NPAGE_def KEY_ENTER_def ord_def

lemma draw_diff_view_in_range: "scroll_in_range (draw_diff_view s h) h"
  by (simp add: scroll_in_range_def draw_diff_view_def Let_def)

lemma diff_step_in_range:
  assumes "3 \<le> height e" "scroll_in_range s (height e)"
    and "k = KEY_UP \<or> k = KEY_DOWN \<or> k = KEY_PPAGE \<or> k = KEY_NPAGE"
  shows "\<exists>s'. handle_diff_input s k e = Inr (True, s') \<and> diff_content s' = diff_content s
           \<and> scroll_in_range s' (height e)"
  using assms
  by (auto simp: handle_diff_input_def scroll_in_range_def key_defs Let_def)

lemma parse_git_status_diff [simp]:
  "diff_content (parse_git_status s r) = diff_content s"
  "diff_scroll (parse_git_status s r) = diff_scroll s"
  by (cases r; simp add: parse_git_status_def)+

lemma stage_file_diff [simp]:
  "diff_content (stage_file s f r) = diff_content s"
  "diff_scroll (stage_file s f r) = diff_scroll s"
  by (cases r; simp add: stage_file_def)+

lemma unstage_file_diff [simp]:
  "diff_content (unstage_file s f r) = diff_content s"
  "diff_scroll (unstage_file s f r) = diff_scroll s"
  by (cases r; simp add: unstage_file_def)+

lemma discard_changes_diff [simp]:
  "diff_content (discard_changes s f r) = diff_content s"
  "diff_scroll (discard_changes s f r) = diff_scroll s"
  by (cases r; simp add: discard_changes_def)+

lemma refresh_status_diff:
  "refresh_status s r = Inr s' \<Longrightarrow> diff_content s' = diff_content s"
  by (auto simp: refresh_status_def Let_def split: sum.splits option.splits if_splits)

lemma toggle_stage_current_file_diff:
  "toggle_stage_current_file s e = Inr s' \<Longrightarrow> diff_content s' = diff_content s"
  by (auto simp: toggle_stage_current_file_def Let_def split: sum.splits option.splits if_splits)

lemma chunk_stage_current_file_diff:
  "chunk_stage_current_file s e = Inr s' \<Longrightarrow> diff_content s' = diff_content s"
  by (auto simp: chunk_stage_current_file_def Let_def split: sum.splits option.splits if_splits)

lemma discard_current_file_diff:
  "discard_current_file s e = Inr s' \<Longrightarrow> diff_content s' = diff_content s"
  by (auto simp: discard_current_file_def Let_def split: sum.splits option.splits if_splits)

lemma stage_all_diff: "diff_content (stage_all s e) = diff_content s"
  by (simp add: stage_all_def Let_def)

lemma show_commit_dialog_diff: "diff_content (show_commit_dialog s e) = diff_content s"
  by (simp add: show_commit_dialog_def Let_def split: option.splits prod.splits)

lemma toggle_stage_in_diff_reset:
  "toggle_stage_in_diff s e = Inr s' \<Longrightarrow>
     diff_content s' = diff_content s \<and> diff_scroll s' = diff_scroll s
     \<or> diff_content s' = file_diff e \<and> diff_scroll s' = 0"
  by (auto simp: toggle_stage_in_diff_def Let_def split: sum.splits option.splits if_splits)

lemma map_sum_Pair_eq_Inr [simp]:
  "map_sum id (Pair True) x = Inr (b, s') \<longleftrightarrow> b \<and> x = Inr s'"
  by (cases x) auto

lemma handle_list_input_reset:
  "handle_list_input s k e = Inr (b, s') \<Longrightarrow>
     diff_content s' = diff_content s \<or> diff_content s' = file_diff e \<and> diff_scroll s' = 0"
  unfolding handle_list_input_def Let_def
  by (auto split: if_splits sum.splits
      dest: refresh_status_diff toggle_stage_current_file_diff chunk_stage_current_file_diff
        discard_current_file_diff
      simp: stage_all_diff show_commit_dialog_diff)

lemma handle_diff_input_reset:
  "handle_diff_input s k e = Inr (b, s') \<Longrightarrow>
     diff_content s' = diff_content s \<or> diff_content s' = file_diff e \<and> diff_scroll s' = 0"
  unfolding handle_diff_input_def Let_def
  by (auto split: if_splits sum.splits dest: toggle_stage_in_diff_reset)

lemma show_diff_key:
  assumes "0 \<le> cursor_pos s" "cursor_pos s < int (length (files s))"
  shows "handle_list_input s (ord CHR ''d'') e =
           Inr (True, s\<lparr>diff_content := file_diff e, diff_scroll := 0,
                         mode := ''diff'', status_message := []\<rparr>)"
proof -
  from assms length_get_ordered_files_ge [of "files s"]
  have "cursor_pos s < int (length (get_ordered_files (files s)))"
    by linarith
  with assms show ?thesis
    by (simp add: handle_list_input_def key_defs py_index_def Let_def)
qed

section \<open>Facts about the display lines of the list view\<close>

lemma length_file_lines [simp]: "length (file_lines G start sec) = length G"
  by (induction G arbitrary: start) simp_all

lemma nth_file_lines:
  "j < length G \<Longrightarrow>
     file_lines G start sec ! j = (Inr (G ! j), Some (start + int j), Some sec)"
proof (induction G arbitrary: start j)
  case Nil
  then show ?case by simp
next
  case (Cons f G)
  show ?case
  proof (cases j)
    case 0
    then show ?thesis by simp
  next
    case (Suc j')
    with Cons.prems have "j' < length G" by simp
    from Cons.IH [OF this, of "start + 1"] Suc show ?thesis by simp
  qed
qed

lemma fidx_file_lines:
  "l \<in> set (file_lines G start sec) \<Longrightarrow>
     \<exists>j < length G. fst (snd l) = Some (start + int j)"
proof -
  assume "l \<in> set (file_lines G start sec)"
  then obtain j where "j < length (file_lines G start sec)" "file_lines G start sec ! j = l"
    by (auto simp only: in_set_conv_nth)
  then show ?thesis
    using nth_file_lines [of j G start sec] by auto
qed

lemma find_cursor_miss:
  "\<forall>l \<in> set P. fst (snd l) \<noteq> Some cp \<Longrightarrow>
     find_cursor (P @ R) cp i = find_cursor R cp (i + int (length P))"
proof (induction P arbitrary: i)
  case Nil
  then show ?case by simp
next
  case (Cons l P)
  obtain c fidx sec where l: "l = (c, fidx, sec)"
    by (cases l) auto
  with Cons.prems have "fidx \<noteq> Some cp" by simp
  moreover from Cons.prems have "\<forall>l \<in> set P. fst (snd l) \<noteq> Some cp" by simp
  ultimately show ?case
    using Cons.IH [of "i + 1"] l by (simp add: add.assoc)
qed

lemma find_cursor_file_lines_hit:
  "start \<le> cp \<Longrightarrow> cp < start + int (length G) \<Longrightarrow>
     find_cursor (file_lines G start sec @ R) cp i = (i + (cp - start), sec)"
proof (induction G arbitrary: start i)
  case Nil
  then show ?case by simp
next
  case (Cons f G)
  show ?case
  proof (cases "start = cp")
    case True
    then show ?thesis by simp
  next
    case False
    with Cons.prems have "start + 1 \<le> cp" "cp < start + 1 + int (length G)"
      by simp_all
    from Cons.IH [OF this, of "i + 1"] False show ?thesis by simp
  qed
qed

text \<open>
  A section of the display: the lines \<open>P\<close> before it, its heading, its file lines and
  the lines \<open>R\<close> after it.
\<close>

lemma section_cursor:
  assumes miss: "\<forall>l \<in> set P. fst (snd l) \<noteq> Some cp"
    and cp: "start \<le> cp" "cp < start + int (length G)"
    and lines_def: "lines = P @ [(Inl t, None, None)] @ file_lines G start (int (length P)) @ R"
  shows "find_cursor lines cp 0 = (int (length P) + 1 + (cp - start), int (length P))"
    and "lines ! length P = (Inl t, None, None)"
    and "\<forall>j. j \<le> nat (cp - start) \<longrightarrow>
           lines ! (length P + 1 + j) = (Inr (G ! j), Some (start + int j), Some (int (length P)))"
proof -
  have "find_cursor lines cp 0
        = find_cursor ([(Inl t, None, None)] @ file_lines G start (int (length P)) @ R) cp
            (int (length P))"
    unfolding lines_def using find_cursor_miss [OF miss, of _ 0] by simp
  also have "\<dots> = find_cursor (file_lines G start (int (length P)) @ R) cp (int (length P) + 1)"
    by simp
  also have "\<dots> = (int (length P) + 1 + (cp - start), int (length P))"
    using cp by (rule find_cursor_file_lines_hit)
  finally show "find_cursor lines cp 0 = (int (length P) + 1 + (cp - start), int (length P))" .
  show "lines ! length P = (Inl t, None, None)"
    unfolding lines_def by simp
  show "\<forall>j. j \<le> nat (cp - start) \<longrightarrow>
           lines ! (length P + 1 + j) = (Inr (G ! j), Some (start + int j), Some (int (length P)))"
  proof (intro allI impI)
    fix j assume "j \<le> nat (cp - start)"
    with cp have j: "j < length G" by linarith
    have "lines ! (length P + 1 + j) = (file_lines G start (int (length P)) @ R) ! j"
      unfolding lines_def by (simp add: nth_append)
    also have "\<dots> = file_lines G start (int (length P)) ! j"
      using j by (simp add: nth_append)
    also have "\<dots> = (Inr (G ! j), Some (start + int j), Some (int (length P)))"
      using j by (rule nth_file_lines)
    finally show "lines ! (length P + 1 + j)
        = (Inr (G ! j), Some (start + int j), Some (int (length P)))" .
  qed
qed

lemma length_display_lines:
  "length (display_lines fs) = length (get_ordered_files fs) + 5"
  by (simp add: display_lines_def get_ordered_files_def Let_def)

lemma cursor_line_header:
  assumes cp: "0 \<le> cp" "cp < int (length (get_ordered_files fs))"
  shows "\<exists>h d t. find_cursor (display_lines fs) cp 0 = (int h + 1 + int d, int h)
           \<and> d \<le> nat cp
           \<and> h + 1 + d < length (display_lines fs)
           \<and> display_lines fs ! h = (Inl t, None, None) \<and> t \<in> headings
           \<and> (\<forall>j \<le> d. display_lines fs ! (h + 1 + j)
                 = (Inr (get_ordered_files fs ! (nat cp - d + j)),
                    Some (cp - int d + int j), Some (int h)))"
proof -
  let ?A = "filter staged fs"
  let ?B = "filter (\<lambda>f. \<not> staged f \<and> status f \<noteq> ''untracked'') fs"
  let ?C = "filter (\<lambda>f. status f = ''untracked'') fs"
  let ?H1 = "(Inl ''Changes to be committed:'', None, None) :: display_line"
  let ?H2 = "(Inl ''Changes not staged for commit:'', None, None) :: display_line"
  let ?H3 = "(Inl ''Untracked files:'', None, None) :: display_line"
  let ?Bl = "(Inl [], None, None) :: display_line"
  let ?d1 = "[?H1] @ file_lines ?A 0 0 @ [?Bl]"
  let ?d2 = "?d1 @ [?H2] @ file_lines ?B (int (length ?A)) (int (length ?d1)) @ [?Bl]"
  have ord: "get_ordered_files fs = ?A @ ?B @ ?C"
    by (simp add: get_ordered_files_def)
  have len: "length (display_lines fs) = length ?A + length ?B + length ?C + 5"
    by (simp add: length_display_lines ord)
  have miss1: "\<forall>l \<in> set ?d1. fst (snd l) \<noteq> Some cp" if "int (length ?A) \<le> cp"
  proof
    fix l assume "l \<in> set ?d1"
    then consider "l = ?H1" | "l = ?Bl" | "l \<in> set (file_lines ?A 0 0)"
      by auto
    then show "fst (snd l) \<noteq> Some cp"
    proof cases
      case 3
      from fidx_file_lines [OF 3] that show ?thesis by auto
    qed simp_all
  qed
  have miss2: "\<forall>l \<in> set ?d2. fst (snd l) \<noteq> Some cp"
    if "int (length ?A) + int (length ?B) \<le> cp"
  proof
    fix l assume "l \<in> set ?d2"
    then consider "l \<in> set ?d1" | "l = ?H2" | "l = ?Bl"
      | "l \<in> set (file_lines ?B (int (length ?A)) (int (length ?d1)))"
      by auto
    then show "fst (snd l) \<noteq> Some cp"
    proof cases
      case 1
      have "int (length ?A) \<le> cp" using that by linarith
      from miss1 [OF this] 1 show ?thesis by blast
    next
      case 4
      from fidx_file_lines [OF 4] that show ?thesis by auto
    qed simp_all
  qed
  consider (a) "cp < int (length ?A)"
    | (b) "int (length ?A) \<le> cp" "cp < int (length ?A) + int (length ?B)"
    | (c) "int (length ?A) + int (length ?B) \<le> cp"
  by linarith
  then show ?thesis
  proof cases
    case a
    have eq: "display_lines fs = [] @ [?H1] @ file_lines ?A 0 (int (length ([] :: display_line list)))
                @ ([?Bl] @ [?H2] @ file_lines ?B (int (length ?A)) (int (length ?d1)) @ [?Bl]
                   @ [?H3] @ file_lines ?C (int (length ?A) + int (length ?B)) (int (length ?d2)))"
      by (simp add: display_lines_def Let_def)
    have m: "\<forall>l \<in> set ([] :: display_line list). fst (snd l) \<noteq> Some cp"
      by simp
    have c1: "(0::int) \<le> cp" and c2: "cp < 0 + int (length ?A)"
      using cp(1) a by simp_all
    note sc = section_cursor [OF m c1 c2 eq]
    have "\<forall>j \<le> nat cp. display_lines fs ! (0 + 1 + j)
                 = (Inr (get_ordered_files fs ! (nat cp - nat cp + j)),
                    Some (cp - int (nat cp) + int j), Some (int 0))"
    proof (intro allI impI)
      fix j assume j: "j \<le> nat cp"
      with a cp(1) have "j < length ?A" by linarith
      then have "get_ordered_files fs ! j = ?A ! j"
        unfolding ord by (simp add: nth_append)
      with sc(3) j cp(1) show "display_lines fs ! (0 + 1 + j)
                 = (Inr (get_ordered_files fs ! (nat cp - nat cp + j)),
                    Some (cp - int (nat cp) + int j), Some (int 0))"
        by simp
    qed
    moreover have "find_cursor (display_lines fs) cp 0 = (int 0 + 1 + int (nat cp), int 0)"
      using sc(1) cp(1) by simp
    moreover have "0 + 1 + nat cp < length (display_lines fs)"
      using a cp(1) len by linarith
    moreover have "display_lines fs ! 0 = (Inl ''Changes to be committed:'', None, None)"
      using sc(2) by simp
    moreover have "''Changes to be committed:'' \<in> headings"
      by (simp add: headings_def)
    ultimately show ?thesis by blast
  next
    case b
    let ?d = "nat (cp - int (length ?A))"
    have eq: "display_lines fs = ?d1 @ [?H2] @ file_lines ?B (int (length ?A)) (int (length ?d1))
                @ ([?Bl] @ [?H3]
                   @ file_lines ?C (int (length ?A) + int (length ?B)) (int (length ?d2)))"
      by (simp add: display_lines_def Let_def)
    note sc = section_cursor [OF miss1 [OF b(1)] b(1) b(2) eq]
    have lenP: "length ?d1 = length ?A + 2" by simp
    have "\<forall>j \<le> ?d. display_lines fs ! (length ?d1 + 1 + j)
                 = (Inr (get_ordered_files fs ! (nat cp - ?d + j)),
                    Some (cp - int ?d + int j), Some (int (length ?d1)))"
    proof (intro allI impI)
      fix j assume j: "j \<le> ?d"
      with b have jB: "j < length ?B" by linarith
      have "nat cp - ?d + j = length ?A + j"
        using b(1) by linarith
      then have "get_ordered_files fs ! (nat cp - ?d + j) = ?B ! j"
        unfolding ord using jB by (simp add: nth_append)
      moreover have "cp - int ?d + int j = int (length ?A) + int j"
        using b(1) by linarith
      ultimately show "display_lines fs ! (length ?d1 + 1 + j)
                 = (Inr (get_ordered_files fs ! (nat cp - ?d + j)),
                    Some (cp - int ?d + int j), Some (int (length ?d1)))"
        using sc(3) j by simp
    qed
    moreover have "find_cursor (display_lines fs) cp 0
        = (int (length ?d1) + 1 + int ?d, int (length ?d1))"
      using sc(1) b(1) by simp
    moreover have "?d \<le> nat cp"
      by linarith
    moreover have "length ?d1 + 1 + ?d < length (display_lines fs)"
      using b len lenP by linarith
    moreover have "display_lines fs ! length ?d1
        = (Inl ''Changes not staged for commit:'', None, None)"
      using sc(2) .
    moreover have "''Changes not staged for commit:'' \<in> headings"
      by (simp add: headings_def)
    ultimately show ?thesis by blast
  next
    case c
    let ?n = "int (length ?A) + int (length ?B)"
    let ?d = "nat (cp - ?n)"
    have eq: "display_lines fs = ?d2 @ [?H3] @ file_lines ?C ?n (int (length ?d2)) @ []"
      by (simp add: display_lines_def Let_def)
    have c2: "cp < ?n + int (length ?C)"
      using cp(2) unfolding ord by simp
    note sc = section_cursor [OF miss2 [OF c] c c2 eq]
    have lenP: "length ?d2 = length ?A + length ?B + 4" by simp
    have "\<forall>j \<le> ?d. display_lines fs ! (length ?d2 + 1 + j)
                 = (Inr (get_ordered_files fs ! (nat cp - ?d + j)),
                    Some (cp - int ?d + int j), Some (int (length ?d2)))"
    proof (intro allI impI)
      fix j assume j: "j \<le> ?d"
      with c c2 have jC: "j < length ?C" by linarith
      have "nat cp - ?d + j = length ?A + length ?B + j"
        using c by linarith
      then have "get_ordered_files fs ! (nat cp - ?d + j) = ?C ! j"
        unfolding ord using jC by (simp add: nth_append)
      moreover have "cp - int ?d + int j = ?n + int j"
        using c by linarith
      ultimately show "display_lines fs ! (length ?d2 + 1 + j)
                 = (Inr (get_ordered_files fs ! (nat cp - ?d + j)),
                    Some (cp - int ?d + int j), Some (int (length ?d2)))"
        using sc(3) j by simp
    qed
    moreover have "find_cursor (display_lines fs) cp 0
        = (int (length ?d2) + 1 + int ?d, int (length ?d2))"
      using sc(1) c by simp
    moreover have "?d \<le> nat cp"
      by linarith
    moreover have "length ?d2 + 1 + ?d < length (display_lines fs)"
      using c c2 len lenP by linarith
    moreover have "display_lines fs ! length ?d2 = (Inl ''Untracked files:'', None, None)"
      using sc(2) .
    moreover have "''Untracked files:'' \<in> headings"
      by (simp add: headings_def)
    ultimately show ?thesis by blast
  qed
qed

lemma find_cursor_shrunk:
  "find_cursor (display_lines (files shrunk_state)) (cursor_pos shrunk_state) 0 = (3, 2)"
  by (simp add: shrunk_state_def example_state_def display_lines_def)

lemma find_cursor_scrolled:
  "find_cursor (display_lines (files scrolled_state)) (cursor_pos scrolled_state) 0 = (4, 3)"
  by (simp add: scrolled_state_def example_state_def display_lines_def)

lemma find_cursor_twelve_8:
  "find_cursor (display_lines twelve_files) 8 0 = (9, 0)"
  by (simp add: twelve_files_def display_lines_def)

lemma find_cursor_twelve_7:
  "find_cursor (display_lines twelve_files) 7 0 = (8, 0)"
  by (simp add: twelve_files_def display_lines_def)

lemma length_display_twelve: "length (display_lines twelve_files) = 17"
  by (simp add: twelve_files_def display_lines_def)

section \<open>The list operations keep the cursor invariant\<close>

lemma list_inv_cursor:
  assumes "wf_files (files s)"
    and "c = 0 \<or> 0 \<le> c \<and> c < int (length (get_ordered_files (files s)))"
  shows "list_inv (s\<lparr>cursor_pos := c\<rparr>)"
  using assms length_get_ordered_files [of "files s"]
  by (auto simp: list_inv_def cursor_valid_def)

lemma list_inv_status_message [simp]:
  "list_inv (s\<lparr>status_message := m\<rparr>) = list_inv s"
  by (simp add: list_inv_def cursor_valid_def)

lemma list_inv_ordered:
  "list_inv s \<Longrightarrow> files s \<noteq> [] \<Longrightarrow>
     0 \<le> cursor_pos s \<and> cursor_pos s < int (length (get_ordered_files (files s)))"
  using length_get_ordered_files [of "files s"]
  by (simp add: list_inv_def cursor_valid_def)

lemma list_inv_parse:
  assumes "list_inv s"
    and "c = 0 \<or> 0 \<le> c
           \<and> c < int (length (get_ordered_files (files (parse_git_status s r))))"
  shows "list_inv ((parse_git_status s r)\<lparr>cursor_pos := c\<rparr>)"
  using assms wf_parse_git_status [of s r]
  by (intro list_inv_cursor) (simp_all add: list_inv_def)

lemma clamp_in_ordered:
  fixes c :: int and n :: nat
  assumes "0 \<le> c"
  shows "max 0 (min c (int n - 1)) = 0 \<or> 0 \<le> max 0 (min c (int n - 1))
           \<and> max 0 (min c (int n - 1)) < int n"
  using assms by linarith

lemma refresh_status_inv:
  assumes inv: "list_inv s"
  shows "\<exists>s'. refresh_status s r = Inr s' \<and> list_inv s'
           \<and> watcher_proc s' = watcher_proc s
           \<and> last_refresh_time s' = last_refresh_time s
           \<and> events_during_cooldown s' = events_during_cooldown s"
proof (cases "files s = []")
  case True
  with inv have c: "cursor_pos s = 0"
    by (simp add: list_inv_def cursor_valid_def)
  have "refresh_status s r
      = Inr ((parse_git_status s r)\<lparr>cursor_pos := 0, status_message := ''Refreshed''\<rparr>)"
    using True c by (simp add: refresh_status_def)
  moreover have "list_inv ((parse_git_status s r)\<lparr>cursor_pos := 0\<rparr>)"
    using inv by (intro list_inv_parse) simp_all
  ultimately show ?thesis
    by (cases r) (simp add: parse_git_status_def)
next
  case False
  let ?old = "get_ordered_files (files s)"
  let ?k = "key (?old ! nat (cursor_pos s))"
  let ?s1 = "parse_git_status s r"
  let ?new = "get_ordered_files (files ?s1)"
  from list_inv_ordered [OF inv False]
  have c: "0 \<le> cursor_pos s" "cursor_pos s < int (length ?old)"
    by simp_all
  then have idx: "py_index ?old (cursor_pos s) = Inr (?old ! nat (cursor_pos s))"
    by (simp add: py_index_in_range)
  define c' where "c' = (case find_key ?k ?new of
      Some i \<Rightarrow> int i
    | None \<Rightarrow> max 0 (min (cursor_pos s) (int (length ?new) - 1)))"
  have run: "refresh_status s r = Inr (?s1\<lparr>cursor_pos := c', status_message := ''Refreshed''\<rparr>)"
    using c idx by (simp add: refresh_status_def Let_def c'_def split: option.splits)
  have "c' = 0 \<or> 0 \<le> c' \<and> c' < int (length ?new)"
  proof (cases "find_key ?k ?new")
    case None
    then show ?thesis
      using clamp_in_ordered [OF c(1), of "length ?new"] by (simp add: c'_def)
  next
    case (Some i)
    with find_key_Some [OF Some] show ?thesis
      by (simp add: c'_def)
  qed
  with inv have "list_inv (?s1\<lparr>cursor_pos := c'\<rparr>)"
    by (intro list_inv_parse)
  with run show ?thesis
    by (cases r) (simp add: parse_git_status_def)
qed

lemma list_inv_commands [simp]:
  "list_inv (stage_file s f r) = list_inv s"
  "list_inv (unstage_file s f r) = list_inv s"
  "list_inv (discard_changes s f r) = list_inv s"
  by (cases r; simp add: stage_file_def unstage_file_def discard_changes_def)+

lemma list_inv_empty_ordered:
  "list_inv s \<Longrightarrow> files s = [] \<Longrightarrow>
     cursor_pos s \<ge> int (length (get_ordered_files (files s)))"
  by (simp add: list_inv_def cursor_valid_def)

lemma min_in_ordered:
  fixes c :: int and n :: nat
  assumes "0 \<le> c" "n \<noteq> 0"
  shows "0 \<le> min c (int n - 1) \<and> min c (int n - 1) < int n"
  using assms by linarith

lemma toggle_stage_current_file_inv:
  assumes inv: "list_inv s"
  shows "\<exists>s'. toggle_stage_current_file s e = Inr s' \<and> list_inv s'"
proof (cases "files s = []")
  case True
  from list_inv_empty_ordered [OF inv True] inv show ?thesis
    by (simp add: toggle_stage_current_file_def Let_def)
next
  case False
  let ?old = "get_ordered_files (files s)"
  let ?file = "?old ! nat (cursor_pos s)"
  let ?s1 = "if staged ?file then unstage_file s ?file (cmd_result e)
             else stage_file s ?file (cmd_result e)"
  let ?s2 = "parse_git_status ?s1 (status_result e)"
  let ?new = "get_ordered_files (files ?s2)"
  let ?nk = "if cursor_pos s + 1 < int (length ?old)
             then Some (key (?old ! nat (cursor_pos s + 1))) else None"
  from list_inv_ordered [OF inv False]
  have c: "0 \<le> cursor_pos s" "cursor_pos s < int (length ?old)"
    by simp_all
  have idx: "py_index ?old (cursor_pos s) = Inr ?file"
    using c by (simp add: py_index_in_range)
  have idx2: "cursor_pos s + 1 < int (length ?old) \<Longrightarrow>
      py_index ?old (cursor_pos s + 1) = Inr (?old ! nat (cursor_pos s + 1))"
    using c by (simp add: py_index_in_range)
  have inv1: "list_inv ?s1"
    using inv by simp
  have cp1: "cursor_pos ?s1 = cursor_pos s"
    by simp
  define c' where "c' = (if length ?new = 0 then 0
      else case (case ?nk of None \<Rightarrow> None | Some k \<Rightarrow> find_key k ?new) of
             Some i \<Rightarrow> int i
           | None \<Rightarrow> min (cursor_pos s) (int (length ?new) - 1))"
  have run: "toggle_stage_current_file s e = Inr (?s2\<lparr>cursor_pos := c'\<rparr>)"
    using c idx idx2
    by (simp add: toggle_stage_current_file_def Let_def c'_def split: option.splits)
  have "c' = 0 \<or> 0 \<le> c' \<and> c' < int (length ?new)"
  proof (cases "length ?new = 0")
    case True
    then show ?thesis by (simp add: c'_def)
  next
    case nonempty: False
    show ?thesis
    proof (cases "case ?nk of None \<Rightarrow> None | Some k \<Rightarrow> find_key k ?new")
      case None
      with nonempty have "c' = min (cursor_pos s) (int (length ?new) - 1)"
        by (simp add: c'_def)
      with min_in_ordered [OF c(1) nonempty] show ?thesis by simp
    next
      case (Some i)
      then obtain k where "find_key k ?new = Some i"
        by (auto split: option.splits if_splits)
      from find_key_Some [OF this] have "i < length ?new" by simp
      moreover from Some nonempty have "c' = int i"
        by (simp add: c'_def)
      ultimately show ?thesis by simp
    qed
  qed
  with inv1 have "list_inv (?s2\<lparr>cursor_pos := c'\<rparr>)"
    by (intro list_inv_parse)
  with run show ?thesis by simp
qed

lemma discard_current_file_inv:
  assumes inv: "list_inv s"
  shows "\<exists>s'. discard_current_file s e = Inr s' \<and> list_inv s'"
proof (cases "files s = []")
  case True
  from list_inv_empty_ordered [OF inv True] inv show ?thesis
    by (simp add: discard_current_file_def Let_def)
next
  case False
  let ?old = "get_ordered_files (files s)"
  let ?file = "?old ! nat (cursor_pos s)"
  let ?s1 = "discard_changes s ?file (cmd_result e)"
  let ?s2 = "parse_git_status ?s1 (status_result e)"
  let ?new = "get_ordered_files (files ?s2)"
  from list_inv_ordered [OF inv False]
  have c: "0 \<le> cursor_pos s" "cursor_pos s < int (length ?old)"
    by simp_all
  have idx: "py_index ?old (cursor_pos s) = Inr ?file"
    using c by (simp add: py_index_in_range)
  have inv1: "list_inv ?s1"
    using inv by simp
  have cp1: "cursor_pos ?s1 = cursor_pos s"
    by (cases "cmd_result e") (simp add: discard_changes_def)
  define c' where "c' = (if length ?new = 0 then 0
      else min (cursor_pos s) (int (length ?new) - 1))"
  have "c' = 0 \<or> 0 \<le> c' \<and> c' < int (length ?new)"
    using min_in_ordered [OF c(1), of "length ?new"] by (auto simp: c'_def)
  with inv1 have "list_inv (?s2\<lparr>cursor_pos := c'\<rparr>)"
    by (intro list_inv_parse)
  moreover have "discard_current_file s e = Inr (?s2\<lparr>cursor_pos := c'\<rparr>)
      \<or> (\<exists>m. discard_current_file s e = Inr (s\<lparr>status_message := m\<rparr>))"
    using c idx cp1 by (auto simp: discard_current_file_def Let_def c'_def)
  ultimately show ?thesis
    using inv by auto
qed

lemma chunk_stage_current_file_inv:
  assumes inv: "list_inv s"
  shows "\<exists>s'. chunk_stage_current_file s e = Inr s' \<and> list_inv s'"
proof (cases "files s = []")
  case True
  from list_inv_empty_ordered [OF inv True] inv show ?thesis
    by (simp add: chunk_stage_current_file_def Let_def)
next
  case False
  let ?old = "get_ordered_files (files s)"
  let ?file = "?old ! nat (cursor_pos s)"
  let ?s1 = "parse_git_status s (status_result e)"
  let ?new = "get_ordered_files (files ?s1)"
  from list_inv_ordered [OF inv False]
  have c: "0 \<le> cursor_pos s" "cursor_pos s < int (length ?old)"
    by simp_all
  have idx: "py_index ?old (cursor_pos s) = Inr ?file"
    using c by (simp add: py_index_in_range)
  define c' where "c' = min (cursor_pos s) (max 0 (int (length ?new) - 1))"
  have "c' = 0 \<or> 0 \<le> c' \<and> c' < int (length ?new)"
    using c(1) unfolding c'_def by linarith
  with inv have "list_inv (?s1\<lparr>cursor_pos := c'\<rparr>)"
    by (intro list_inv_parse)
  moreover have "(\<exists>m. chunk_stage_current_file s e
        = Inr (?s1\<lparr>cursor_pos := c', status_message := m\<rparr>))
      \<or> (\<exists>m. chunk_stage_current_file s e = Inr (s\<lparr>status_message := m\<rparr>))"
    using c idx
    by (auto simp: chunk_stage_current_file_def Let_def c'_def split: option.splits)
  ultimately show ?thesis
    using inv by auto
qed

lemma stage_all_inv: "list_inv s \<Longrightarrow> list_inv (stage_all s e)"
  using list_inv_parse [of s 0 "status_result e"]
  by (simp add: stage_all_def Let_def)

lemma show_commit_dialog_inv: "list_inv s \<Longrightarrow> list_inv (show_commit_dialog s e)"
proof -
  assume inv: "list_inv s"
  then have "list_inv (s\<lparr>status_message := ''Commit successful!''\<rparr>)"
    by simp
  from list_inv_parse [OF this, of 0 "status_result e"] inv show ?thesis
    by (simp add: show_commit_dialog_def Let_def split: option.splits prod.splits)
qed

lemma list_inv_view_fields [simp]:
  "list_inv (s\<lparr>diff_content := dc\<rparr>) = list_inv s"
  "list_inv (s\<lparr>diff_scroll := ds\<rparr>) = list_inv s"
  "list_inv (s\<lparr>mode := m\<rparr>) = list_inv s"
  by (simp_all add: list_inv_def cursor_valid_def)

lemma navigation_inv:
  assumes inv: "list_inv s" and h: "4 \<le> height e"
  shows "list_inv (if cursor_pos s > 0
                   then s\<lparr>cursor_pos := cursor_pos s - 1, status_message := []\<rparr> else s)"
    and "list_inv (if cursor_pos s < int (length (files s)) - 1
                   then s\<lparr>cursor_pos := cursor_pos s + 1, status_message := []\<rparr> else s)"
    and "list_inv (s\<lparr>cursor_pos := max 0 (cursor_pos s - (height e - 4)), status_message := []\<rparr>)"
    and "files s \<noteq> [] \<Longrightarrow>
         list_inv (s\<lparr>cursor_pos := min (int (length (files s)) - 1) (cursor_pos s + (height e - 4)),
                      status_message := []\<rparr>)"
  using inv h by (auto simp: list_inv_def cursor_valid_def)

lemma py_index_cursor:
  assumes inv: "list_inv s" and c: "cursor_pos s < int (length (files s))"
  shows "py_index (get_ordered_files (files s)) (cursor_pos s)
           = Inr (get_ordered_files (files s) ! nat (cursor_pos s))"
proof -
  from c inv have ne: "files s \<noteq> []"
    by (auto simp: list_inv_def cursor_valid_def)
  from list_inv_ordered [OF inv ne] show ?thesis
    by (simp add: py_index_in_range)
qed

lemma list_ok_Inr [simp]: "list_ok (Inr (b, s')) = list_inv s'"
  by (simp add: list_ok_def)

lemma list_ok_map_sum [simp]:
  "list_ok (map_sum id (Pair True) x) = (\<exists>s'. x = Inr s' \<and> list_inv s')"
  by (cases x) (auto simp: list_ok_def)

lemma list_ok_if: "(c \<Longrightarrow> list_ok a) \<Longrightarrow> (\<not> c \<Longrightarrow> list_ok b) \<Longrightarrow> list_ok (if c then a else b)"
  by simp

text \<open>
  Every key of the list view keeps the invariant, in a terminal of at least four
  lines, but for page down on an empty record list.
\<close>

lemma handle_list_input_inv:
  assumes inv: "list_inv s" and h: "4 \<le> height e"
    and npage: "k = KEY_NPAGE \<longrightarrow> files s \<noteq> []"
  shows "list_ok (handle_list_input s k e)"
proof -
  have refresh: "\<exists>s'. refresh_status s (status_result e) = Inr s' \<and> list_inv s'"
    using refresh_status_inv [OF inv, of "status_result e"] by blast
  show ?thesis
    unfolding handle_list_input_def Let_def
    by (intro list_ok_if)
      (use inv npage refresh navigation_inv [OF inv h] py_index_cursor [OF inv]
        toggle_stage_current_file_inv [OF inv, of e]
        chunk_stage_current_file_inv [OF inv, of e] discard_current_file_inv [OF inv, of e]
        stage_all_inv [OF inv, of e] show_commit_dialog_inv [OF inv, of e]
       in \<open>simp_all\<close>)
qed

section \<open>Facts about the change watcher\<close>

lemma list_inv_watcher_fields [simp]:
  "list_inv (s\<lparr>events_during_cooldown := p\<rparr>) = list_inv s"
  "list_inv (s\<lparr>last_refresh_time := t\<rparr>) = list_inv s"
  by (simp_all add: list_inv_def cursor_valid_def)

lemma check_watcher_cases:
  assumes w: "watcher_proc s" and inv: "list_inv s"
  shows "(\<not> now - last_refresh_time s < cooldown \<and> (ev \<or> events_during_cooldown s)
          \<and> (\<exists>s'. check_watcher s now ev r now2 = Inr (True, s') \<and> watcher_proc s'
                \<and> list_inv s' \<and> last_refresh_time s' = now2 \<and> \<not> events_during_cooldown s'))
       \<or> (now - last_refresh_time s < cooldown \<and> ev
          \<and> check_watcher s now ev r now2 = Inr (False, s\<lparr>events_during_cooldown := True\<rparr>))
       \<or> (\<not> ev \<and> (now - last_refresh_time s < cooldown \<or> \<not> events_during_cooldown s)
          \<and> check_watcher s now ev r now2 = Inr (False, s))"
proof -
  from refresh_status_inv [OF inv, of r] obtain s1 where
    s1: "refresh_status s r = Inr s1" "list_inv s1" "watcher_proc s1 = watcher_proc s"
    by blast
  let ?s' = "s1\<lparr>last_refresh_time := now2, events_during_cooldown := False\<rparr>"
  have ok: "watcher_proc ?s' \<and> list_inv ?s' \<and> last_refresh_time ?s' = now2
      \<and> \<not> events_during_cooldown ?s'"
    using s1 w by simp
  consider (refresh) "\<not> now - last_refresh_time s < cooldown" "ev \<or> events_during_cooldown s"
    | (swallow) "now - last_refresh_time s < cooldown" "ev"
    | (idle) "\<not> ev" "now - last_refresh_time s < cooldown \<or> \<not> events_during_cooldown s"
    by blast
  then show ?thesis
  proof cases
    case refresh
    then have "check_watcher s now ev r now2 = Inr (True, ?s')"
      using w s1(1) by (auto simp: check_watcher_def)
    with refresh ok show ?thesis by blast
  next
    case swallow
    then have "check_watcher s now ev r now2 = Inr (False, s\<lparr>events_during_cooldown := True\<rparr>)"
      using w by (simp add: check_watcher_def)
    with swallow show ?thesis by blast
  next
    case idle
    then have "check_watcher s now ev r now2 = Inr (False, s)"
      using w by (auto simp: check_watcher_def)
    with idle show ?thesis by blast
  qed
qed

lemma run_watcher_spaced:
  assumes "watcher_proc s" "list_inv s" "ticks_increasing t ticks" "last_refresh_time s \<le> t"
  shows "\<exists>rs s'. run_watcher s ticks = Inr (rs, s')
           \<and> sorted_wrt (\<lambda>a b. a + cooldown \<le> b) rs
           \<and> (\<forall>a \<in> set rs. last_refresh_time s + cooldown \<le> a \<and> t \<le> a)"
  using assms
proof (induction ticks arbitrary: s t)
  case Nil
  then show ?case by simp
next
  case (Cons tk ticks)
  obtain now ev r now2 where tk: "tk = (now, ev, r, now2)"
    by (cases tk) auto
  from Cons.prems(3) tk have t: "t \<le> now" "now \<le> now2" and inc: "ticks_increasing now2 ticks"
    by simp_all
  from check_watcher_cases [OF Cons.prems(1,2), of now ev r now2]
  consider (refresh) s1 where "\<not> now - last_refresh_time s < cooldown"
      "check_watcher s now ev r now2 = Inr (True, s1)" "watcher_proc s1" "list_inv s1"
      "last_refresh_time s1 = now2"
    | (quiet) s1 where "check_watcher s now ev r now2 = Inr (False, s1)" "watcher_proc s1"
      "list_inv s1" "last_refresh_time s1 = last_refresh_time s"
    using Cons.prems(1,2) by auto
  then show ?case
  proof cases
    case refresh
    from Cons.IH [OF refresh(3,4) inc] refresh(5) obtain rs s' where
      run: "run_watcher s1 ticks = Inr (rs, s')"
      and sorted: "sorted_wrt (\<lambda>a b. a + cooldown \<le> b) rs"
      and after: "\<forall>a \<in> set rs. now2 + cooldown \<le> a \<and> now2 \<le> a"
      by auto
    have "run_watcher s (tk # ticks) = Inr (now # rs, s')"
      using run refresh(2) tk by simp
    moreover have "sorted_wrt (\<lambda>a b. a + cooldown \<le> b) (now # rs)"
      using sorted after t(2) by auto
    moreover have "\<forall>a \<in> set (now # rs). last_refresh_time s + cooldown \<le> a \<and> t \<le> a"
      using after t refresh(1) Cons.prems(4) by auto
    ultimately show ?thesis by blast
  next
    case quiet
    have "last_refresh_time s1 \<le> now2"
      using quiet(4) Cons.prems(4) t by linarith
    from Cons.IH [OF quiet(2,3) inc this] quiet(4) obtain rs s' where
      run: "run_watcher s1 ticks = Inr (rs, s')"
      and sorted: "sorted_wrt (\<lambda>a b. a + cooldown \<le> b) rs"
      and after: "\<forall>a \<in> set rs. last_refresh_time s + cooldown \<le> a \<and> now2 \<le> a"
      by auto
    have "run_watcher s (tk # ticks) = Inr (rs, s')"
      using run quiet(1) tk by simp
    moreover have "\<forall>a \<in> set rs. last_refresh_time s + cooldown \<le> a \<and> t \<le> a"
      using after t by auto
    ultimately show ?thesis using sorted by blast
  qed
qed

lemma run_watcher_trailing:
  assumes "watcher_proc s" "list_inv s"
    and "\<forall>tk \<in> set pre. fst tk - last_refresh_time s < cooldown"
    and "events_during_cooldown s \<or> (\<exists>tk \<in> set pre. fst (snd tk))"
    and "\<not> now - last_refresh_time s < cooldown"
  shows "\<exists>s'. run_watcher s (pre @ [(now, ev, r, now2)]) = Inr ([now], s')
           \<and> \<not> events_during_cooldown s' \<and> last_refresh_time s' = now2"
  using assms
proof (induction pre arbitrary: s)
  case Nil
  from check_watcher_cases [OF Nil(1,2), of now ev r now2] Nil(4,5)
  show ?case by auto
next
  case (Cons tk pre)
  obtain n e q n2 where tk: "tk = (n, e, q, n2)"
    by (cases tk) auto
  from Cons.prems(3) tk have cd: "n - last_refresh_time s < cooldown"
    by simp
  let ?s1 = "if e then s\<lparr>events_during_cooldown := True\<rparr> else s"
  have step: "check_watcher s n e q n2 = Inr (False, ?s1)"
    using check_watcher_cases [OF Cons.prems(1,2), of n e q n2] cd by auto
  have w1: "watcher_proc ?s1" and inv1: "list_inv ?s1"
    and last1: "last_refresh_time ?s1 = last_refresh_time s"
    using Cons.prems(1,2) by simp_all
  have pre1: "\<forall>tk \<in> set pre. fst tk - last_refresh_time ?s1 < cooldown"
    using Cons.prems(3) by simp
  have pend1: "events_during_cooldown ?s1 \<or> (\<exists>tk \<in> set pre. fst (snd tk))"
    using Cons.prems(4) tk by auto
  have now1: "\<not> now - last_refresh_time ?s1 < cooldown"
    using Cons.prems(5) by simp
  from Cons.IH [OF w1 inv1 pre1 pend1 now1] obtain s' where
    "run_watcher ?s1 (pre @ [(now, ev, r, now2)]) = Inr ([now], s')"
    "\<not> events_during_cooldown s'" "last_refresh_time s' = now2"
    by blast
  then show ?case
    using step tk by auto
qed

lemma list_inv_example_state: "list_inv example_state"
  by (simp add: list_inv_def wf_files_def cursor_valid_def example_state_def)

lemma refresh_example_state:
  "refresh_status
     (example_state\<lparr>last_refresh_time := t, events_during_cooldown := p, status_message := m\<rparr>)
     (0, example_stdout, [])
   = Inr (example_state\<lparr>last_refresh_time := t, events_during_cooldown := p,
                        status_message := ''Refreshed''\<rparr>)"
  by (simp add: refresh_status_def parse_git_status_def parse_example_stdout example_state_def
      get_ordered_files_def py_index_def key_def)

section \<open>When the cursor stays inside the window\<close>

lemma legacy_find_cursor_range:
  "legacy_find_cursor ls cp i = 0
     \<or> i \<le> legacy_find_cursor ls cp i \<and> legacy_find_cursor ls cp i < i + int (length ls)"
proof (induction ls arbitrary: i)
  case Nil
  then show ?case by simp
next
  case (Cons l ls)
  obtain content fidx where l: "l = (content, fidx)"
    by (cases l) auto
  from Cons [of "i + 1"] l show ?case by auto
qed

lemma legacy_display_lines_nonempty: "legacy_display_lines fs \<noteq> []"
proof (cases fs)
  case Nil
  then show ?thesis by (simp add: legacy_display_lines_def)
next
  case (Cons f fs')
  then have "staged f \<or> (\<not> staged f \<and> status f \<noteq> ''untracked'') \<or> status f = ''untracked''"
    by blast
  with Cons show ?thesis
    by (auto simp: legacy_display_lines_def Let_def)
qed

text \<open>In the older script the cursor's line is inside the window after every render.\<close>

lemma legacy_draw_file_list_contains_cursor:
  assumes h: "3 \<le> h"
  shows "scroll_offset (legacy_draw_file_list s h)
           \<le> legacy_find_cursor (legacy_display_lines (files s)) (cursor_pos s) 0
       \<and> legacy_find_cursor (legacy_display_lines (files s)) (cursor_pos s) 0
           \<le> scroll_offset (legacy_draw_file_list s h) + (h - 2) - 1"
proof -
  let ?lines = "legacy_display_lines (files s)"
  let ?c = "legacy_find_cursor ?lines (cursor_pos s) 0"
  have "0 < length ?lines"
    using legacy_display_lines_nonempty [of "files s"] by simp
  with legacy_find_cursor_range [of ?lines "cursor_pos s" 0]
  have c: "0 \<le> ?c" "?c < int (length ?lines)"
    by auto
  show ?thesis
    using c h unfolding legacy_draw_file_list_def Let_def by auto
qed

text \<open>
  In the current script the cursor's line is inside the window after a render, unless
  the cursor was above the window and stands too far below its heading for both to fit.
\<close>

lemma draw_file_list_contains_cursor:
  assumes cp: "0 \<le> cursor_pos s" "cursor_pos s < int (length (get_ordered_files (files s)))"
    and h: "5 \<le> hgt"
  shows "\<exists>c hd. find_cursor (display_lines (files s)) (cursor_pos s) 0 = (c, hd)
           \<and> (scroll_offset s \<le> c \<or> c - hd \<le> hgt - 4 - 1 \<longrightarrow>
                scroll_offset (draw_file_list s hgt) \<le> c
                \<and> c \<le> scroll_offset (draw_file_list s hgt) + (hgt - 4) - 1)"
proof -
  let ?lines = "display_lines (files s)"
  from cursor_line_header [OF cp] obtain h d where
    fc: "find_cursor ?lines (cursor_pos s) 0 = (int h + 1 + int d, int h)"
    and len: "h + 1 + d < length ?lines"
    by blast
  have "scroll_offset (draw_file_list s hgt) \<le> int h + 1 + int d
        \<and> int h + 1 + int d \<le> scroll_offset (draw_file_list s hgt) + (hgt - 4) - 1"
    if "scroll_offset s \<le> int h + 1 + int d \<or> int h + 1 + int d - int h \<le> hgt - 4 - 1"
    using that h len fc unfolding draw_file_list_def Let_def by auto
  with fc show ?thesis by blast
qed

section \<open>Refresh keeps the cursor on the same file\<close>

text \<open>
  Claim C1. Let the cursor be valid for the record list before \<open>_refresh_status\<close>. The
  refresh returns, and its record list is the parse of the new status output (the old
  list when the query failed). If the key \<open>(path, staged)\<close> of the record under the old
  cursor occurs in the new flattened list, the new cursor is the first position with
  that key. If it does not occur, or the old list was empty, the new cursor is
  \<open>min(old cursor, len(new records) - 1)\<close> floored at 0. If the new record list is empty
  the cursor is 0.
\<close>

theorem refresh_status_cursor:
  assumes valid: "cursor_valid s"
  shows "\<exists>s'. refresh_status s r = Inr s'
     \<and> files s' = (case r of (returncode, out, err) \<Rightarrow>
                     if returncode = 0 then parse_stdout out else files s)
     \<and> (files s \<noteq> [] \<longrightarrow>
          (let k = key (get_ordered_files (files s) ! nat (cursor_pos s));
               new = get_ordered_files (files s')
           in (k \<in> key ` set new \<longrightarrow>
                 0 \<le> cursor_pos s' \<and> nat (cursor_pos s') < length new
                 \<and> key (new ! nat (cursor_pos s')) = k
                 \<and> (\<forall>j < nat (cursor_pos s'). key (new ! j) \<noteq> k))
            \<and> (k \<notin> key ` set new \<longrightarrow>
                 cursor_pos s' = max 0 (min (cursor_pos s) (int (length (files s')) - 1)))))
     \<and> (files s = [] \<longrightarrow>
          cursor_pos s' = max 0 (min (cursor_pos s) (int (length (files s')) - 1)))
     \<and> (files s' = [] \<longrightarrow> cursor_pos s' = 0)"
proof (cases "files s = []")
  case True
  with valid have c: "cursor_pos s = 0"
    by (simp add: cursor_valid_def)
  let ?s' = "(parse_git_status s r)\<lparr>cursor_pos := 0, status_message := ''Refreshed''\<rparr>"
  have "refresh_status s r = Inr ?s'"
    using True c by (simp add: refresh_status_def)
  moreover have "files ?s' = (case r of (returncode, out, err) \<Rightarrow>
                     if returncode = 0 then parse_stdout out else files s)"
    by (simp add: parse_git_status_files)
  moreover have "cursor_pos ?s' = max 0 (min (cursor_pos s) (int (length (files ?s')) - 1))"
    using c by simp
  ultimately show ?thesis using True by simp
next
  case False
  let ?old = "get_ordered_files (files s)"
  let ?k = "key (?old ! nat (cursor_pos s))"
  let ?s1 = "parse_git_status s r"
  let ?new = "get_ordered_files (files ?s1)"
  from valid False have c: "0 \<le> cursor_pos s" "cursor_pos s < int (length (files s))"
    by (simp_all add: cursor_valid_def)
  with length_get_ordered_files_ge [of "files s"]
  have c_old: "cursor_pos s < int (length ?old)" by linarith
  then have idx: "py_index ?old (cursor_pos s) = Inr (?old ! nat (cursor_pos s))"
    using c(1) by (simp add: py_index_in_range)
  have k_old: "?k \<in> key ` set ?old"
    using c(1) c_old by (simp add: nat_less_iff)
  show ?thesis
  proof (cases "find_key ?k ?new")
    case None
    then have notin: "?k \<notin> key ` set ?new"
      by (simp add: find_key_None)
    with k_old have "files ?s1 \<noteq> files s" by auto
    then have len: "length ?new = length (files ?s1)"
      by (rule length_ordered_parse_git_status)
    define s' where "s' = ?s1\<lparr>cursor_pos := max 0 (min (cursor_pos s) (int (length ?new) - 1)),
                   status_message := ''Refreshed''\<rparr>"
    have run: "refresh_status s r = Inr s'"
      using c_old idx None by (simp add: refresh_status_def Let_def s'_def)
    have fs: "files s' = files ?s1"
      by (simp add: s'_def)
    have f: "files s' = (case r of (returncode, out, err) \<Rightarrow>
                     if returncode = 0 then parse_stdout out else files s)"
      unfolding fs by (rule parse_git_status_files)
    have cp: "cursor_pos s' = max 0 (min (cursor_pos s) (int (length (files s')) - 1))"
      using len by (simp add: s'_def)
    have e: "files s' = [] \<longrightarrow> cursor_pos s' = 0"
      using c(1) len by (auto simp: s'_def)
    have notin': "?k \<notin> key ` set (get_ordered_files (files s'))"
      using notin unfolding fs .
    show ?thesis
      unfolding Let_def
      by (rule exI [of _ s']) (use run f cp e notin' False in blast)
  next
    case (Some i)
    from find_key_Some [OF Some]
    have i: "i < length ?new" "key (?new ! i) = ?k" "\<forall>j < i. key (?new ! j) \<noteq> ?k"
      by simp_all
    then have k_new: "?k \<in> key ` set ?new"
      by (metis imageI nth_mem)
    define s' where "s' = ?s1\<lparr>cursor_pos := int i, status_message := ''Refreshed''\<rparr>"
    have run: "refresh_status s r = Inr s'"
      using c_old idx Some by (simp add: refresh_status_def Let_def s'_def)
    have fs: "files s' = files ?s1"
      by (simp add: s'_def)
    have f: "files s' = (case r of (returncode, out, err) \<Rightarrow>
                     if returncode = 0 then parse_stdout out else files s)"
      unfolding fs by (rule parse_git_status_files)
    have cp: "0 \<le> cursor_pos s' \<and> nat (cursor_pos s') < length (get_ordered_files (files s'))
                 \<and> key (get_ordered_files (files s') ! nat (cursor_pos s')) = ?k
                 \<and> (\<forall>j < nat (cursor_pos s'). key (get_ordered_files (files s') ! j) \<noteq> ?k)"
      unfolding fs using i by (simp add: s'_def)
    have e: "files s' = [] \<longrightarrow> cursor_pos s' = 0"
      unfolding fs using i(1) by auto
    have k_new': "?k \<in> key ` set (get_ordered_files (files s'))"
      using k_new unfolding fs .
    show ?thesis
      unfolding Let_def
      by (rule exI [of _ s']) (use run f cp e k_new' False in blast)
  qed
qed

theorem refresh_status_cursor_witness:
  "cursor_valid example_state
   \<and> key (get_ordered_files (files example_state) ! nat (cursor_pos example_state))
       = (''a.txt'', False)
   \<and> (\<exists>s'. refresh_status example_state (0, example_stdout_unstaged, []) = Inr s'
          \<and> get_ordered_files (files s')
              = [\<lparr>status = ''modified'', path = ''a.txt'', staged = False\<rparr>]
          \<and> cursor_pos s' = 0)"
proof -
  have h: "cursor_valid example_state"
    by (simp add: cursor_valid_def example_state_def)
  have k: "key (get_ordered_files (files example_state) ! nat (cursor_pos example_state))
       = (''a.txt'', False)"
    by (simp add: example_state_def get_ordered_files_def key_def)
  have ev: "\<exists>s'. refresh_status example_state (0, example_stdout_unstaged, []) = Inr s'
          \<and> get_ordered_files (files s')
              = [\<lparr>status = ''modified'', path = ''a.txt'', staged = False\<rparr>]
          \<and> cursor_pos s' = 0"
    by (simp add: parse_example_stdout_unstaged example_state_def get_ordered_files_def key_def
        refresh_status_def py_index_def parse_git_status_def)
  from h k ev refresh_status_cursor [OF h, of "(0, example_stdout_unstaged, [])"]
  show ?thesis by blast
qed

section \<open>Page down on an empty list breaks the cursor invariant\<close>

text \<open>
  Claim C2 says that every operation keeps the cursor invariant: inside the record
  list when there is one, 0 when the list is empty. The code misses it for page down
  on an empty list: \<open>min(len(self.files) - 1, cursor_pos + page_size)\<close> is \<open>-1\<close> there,
  with no floor at 0. From the empty state, which satisfies the invariant, page down
  in a terminal of height 24 leaves the cursor at \<open>-1\<close>, and the refresh key pressed
  next raises \<open>IndexError\<close> on \<open>old_files[-1]\<close>.
\<close>

theorem page_down_on_empty_list:
  "list_inv empty_state
   \<and> handle_list_input empty_state KEY_NPAGE example_env
       = Inr (True, empty_state\<lparr>cursor_pos := - 1, status_message := []\<rparr>)
   \<and> \<not> cursor_valid (empty_state\<lparr>cursor_pos := - 1, status_message := []\<rparr>)
   \<and> handle_list_input (empty_state\<lparr>cursor_pos := - 1, status_message := []\<rparr>)
        (ord CHR ''r'') example_env = Inl IndexError"
  by (simp add: list_inv_def wf_files_def cursor_valid_def empty_state_def example_state_def
      handle_list_input_def key_defs example_env_def refresh_status_def py_index_def)

section \<open>Toggling the staged state moves the cursor to the next file\<close>

text \<open>
  Claim C3. Let the cursor be on a record of the flattened list when
  \<open>_toggle_stage_current_file\<close> runs. The operation returns, and its record list is the
  parse of the status output after the staging command (the old list when the query
  failed). If a record stood right below the cursor before and its key occurs in the
  new flattened list, the new cursor is the first position with that key. Otherwise
  (no record below, or its key is gone) the cursor is clamped to the new last index,
  \<open>min(old cursor, len(new) - 1)\<close>. If the new list is empty the cursor is 0.
\<close>

theorem toggle_stage_cursor:
  assumes c: "0 \<le> cursor_pos s" "cursor_pos s < int (length (get_ordered_files (files s)))"
  shows "\<exists>s'. toggle_stage_current_file s e = Inr s'
     \<and> files s' = (case status_result e of (returncode, out, err) \<Rightarrow>
                     if returncode = 0 then parse_stdout out else files s)
     \<and> (let old = get_ordered_files (files s);
             new = get_ordered_files (files s');
             has_next = (cursor_pos s + 1 < int (length old));
             k = key (old ! nat (cursor_pos s + 1))
         in (new = [] \<longrightarrow> cursor_pos s' = 0)
          \<and> (new \<noteq> [] \<and> has_next \<and> k \<in> key ` set new \<longrightarrow>
                0 \<le> cursor_pos s' \<and> nat (cursor_pos s') < length new
                \<and> key (new ! nat (cursor_pos s')) = k
                \<and> (\<forall>j < nat (cursor_pos s'). key (new ! j) \<noteq> k))
          \<and> (new \<noteq> [] \<and> \<not> (has_next \<and> k \<in> key ` set new) \<longrightarrow>
                cursor_pos s' = min (cursor_pos s) (int (length new) - 1)))"
proof -
  let ?old = "get_ordered_files (files s)"
  let ?file = "?old ! nat (cursor_pos s)"
  let ?k = "key (?old ! nat (cursor_pos s + 1))"
  let ?has_next = "cursor_pos s + 1 < int (length ?old)"
  let ?s1 = "if staged ?file then unstage_file s ?file (cmd_result e)
             else stage_file s ?file (cmd_result e)"
  let ?s2 = "parse_git_status ?s1 (status_result e)"
  let ?new = "get_ordered_files (files ?s2)"
  let ?nk = "if ?has_next then Some ?k else None"
  let ?found = "case ?nk of None \<Rightarrow> None | Some k \<Rightarrow> find_key k ?new"
  have idx: "py_index ?old (cursor_pos s) = Inr ?file"
    using c by (simp add: py_index_in_range)
  have idx2: "?has_next \<Longrightarrow> py_index ?old (cursor_pos s + 1) = Inr (?old ! nat (cursor_pos s + 1))"
    using c by (simp add: py_index_in_range)
  have files_s1: "files ?s1 = files s"
    by simp
  have files_s2: "files ?s2 = (case status_result e of (returncode, out, err) \<Rightarrow>
                     if returncode = 0 then parse_stdout out else files s)"
    by (simp only: parse_git_status_files files_s1)
  have cp_s2: "cursor_pos ?s2 = cursor_pos s"
    by simp
  have unfold: "toggle_stage_current_file s e =
      (if length ?new = 0 then Inr (?s2\<lparr>cursor_pos := 0\<rparr>)
       else case ?found of
              Some i \<Rightarrow> Inr (?s2\<lparr>cursor_pos := int i\<rparr>)
            | None \<Rightarrow> Inr (?s2\<lparr>cursor_pos := min (cursor_pos ?s2) (int (length ?new) - 1)\<rparr>))"
    using c idx idx2 by (simp add: toggle_stage_current_file_def Let_def)
  show ?thesis
  proof (cases "?new = []")
    case True
    then have "toggle_stage_current_file s e = Inr (?s2\<lparr>cursor_pos := 0\<rparr>)"
      unfolding unfold by simp
    moreover have "files (?s2\<lparr>cursor_pos := 0\<rparr>) = files ?s2" by simp
    ultimately show ?thesis
      using True files_s2 by (simp add: Let_def)
  next
    case nonempty: False
    show ?thesis
    proof (cases ?found)
      case None
      then have no: "\<not> (?has_next \<and> ?k \<in> key ` set ?new)"
        by (auto simp: find_key_None split: if_splits)
      let ?s' = "?s2\<lparr>cursor_pos := min (cursor_pos s) (int (length ?new) - 1)\<rparr>"
      have run: "toggle_stage_current_file s e = Inr ?s'"
        unfolding unfold using nonempty None cp_s2 by simp
      have fs: "files ?s' = files ?s2" by simp
      have cp: "cursor_pos ?s' = min (cursor_pos s) (int (length ?new) - 1)" by simp
      show ?thesis
        apply (rule exI [of _ ?s'])
        unfolding Let_def fs
        using run files_s2 cp nonempty no by blast
    next
      case (Some i)
      then have hn: "?has_next" and fk: "find_key ?k ?new = Some i"
        by (auto split: if_splits)
      from find_key_Some [OF fk]
      have i: "i < length ?new" "key (?new ! i) = ?k" "\<forall>j < i. key (?new ! j) \<noteq> ?k"
        by simp_all
      then have k_new: "?k \<in> key ` set ?new"
        by (metis imageI nth_mem)
      let ?s' = "?s2\<lparr>cursor_pos := int i\<rparr>"
      have run: "toggle_stage_current_file s e = Inr ?s'"
        unfolding unfold using nonempty Some by simp
      have fs: "files ?s' = files ?s2" by simp
      have cp: "0 \<le> cursor_pos ?s' \<and> nat (cursor_pos ?s') < length ?new
                \<and> key (?new ! nat (cursor_pos ?s')) = ?k
                \<and> (\<forall>j < nat (cursor_pos ?s'). key (?new ! j) \<noteq> ?k)"
        using i by simp
      show ?thesis
        apply (rule exI [of _ ?s'])
        unfolding Let_def fs
        using run files_s2 cp nonempty hn k_new by blast
    qed
  qed
qed

theorem toggle_stage_cursor_witness:
  "0 \<le> cursor_pos example_state
   \<and> cursor_pos example_state < int (length (get_ordered_files (files example_state)))
   \<and> key (get_ordered_files (files example_state) ! nat (cursor_pos example_state + 1))
       = (''b.txt'', False)
   \<and> (\<exists>s'. toggle_stage_current_file example_state example_env = Inr s'
          \<and> get_ordered_files (files s') =
               [\<lparr>status = ''modified'', path = ''a.txt'', staged = True\<rparr>,
                \<lparr>status = ''untracked'', path = ''b.txt'', staged = False\<rparr>]
          \<and> cursor_pos s' = 1)"
proof -
  have h1: "0 \<le> cursor_pos example_state"
    by (simp add: example_state_def)
  have h2: "cursor_pos example_state < int (length (get_ordered_files (files example_state)))"
    by (simp add: example_state_def get_ordered_files_def)
  have k: "key (get_ordered_files (files example_state) ! nat (cursor_pos example_state + 1))
       = (''b.txt'', False)"
    by (simp add: example_state_def get_ordered_files_def key_def)
  have ev: "\<exists>s'. toggle_stage_current_file example_state example_env = Inr s'
          \<and> get_ordered_files (files s') =
               [\<lparr>status = ''modified'', path = ''a.txt'', staged = True\<rparr>,
                \<lparr>status = ''untracked'', path = ''b.txt'', staged = False\<rparr>]
          \<and> cursor_pos s' = 1"
    by (simp add: parse_example_stdout_staged example_state_def example_env_def
        get_ordered_files_def key_def toggle_stage_current_file_def py_index_def
        parse_git_status_def stage_file_def unstage_file_def)
  from h1 h2 k ev toggle_stage_cursor [OF h1 h2, of example_env]
  show ?thesis by blast
qed

section \<open>The debounce of the change watcher\<close>

text \<open>
  Claim C4, as stated, ends with a bound in time: after the last event the state is
  never stale by more than one cooldown window, for every sequence of checks. It fails
  when the next check comes late: events are seen at 1.0 s (refreshed at once) and at
  1.1 s (inside the cooldown, remembered), the next check is made at 2.0 s, and only
  that check refreshes, 0.9 s after the events were seen, with a cooldown of 0.2 s.
\<close>

theorem trailing_refresh_late_counterexample:
  "ticks_increasing 0 late_ticks
   \<and> run_watcher example_state late_ticks
       = Inr ([1, 2], example_state\<lparr>last_refresh_time := 2, events_during_cooldown := False,
                                    status_message := ''Refreshed''\<rparr>)
   \<and> \<not> (2 \<le> 1.1 + cooldown)"
proof -
  have r0: "refresh_status example_state (0, example_stdout, [])
      = Inr (example_state\<lparr>status_message := ''Refreshed''\<rparr>)"
    using refresh_example_state [where t = 0 and p = False and m = "[]"]
    by (simp add: example_state_def)
  have s1: "check_watcher example_state 1 True (0, example_stdout, []) 1
      = Inr (True, example_state\<lparr>last_refresh_time := 1, events_during_cooldown := False,
                                  status_message := ''Refreshed''\<rparr>)"
    by (simp add: check_watcher_def r0 cooldown_def) (simp add: example_state_def)
  have s2: "check_watcher (example_state\<lparr>last_refresh_time := 1, events_during_cooldown := False,
                                  status_message := ''Refreshed''\<rparr>) 1.1 True (0, example_stdout, []) 1.1
      = Inr (False, example_state\<lparr>last_refresh_time := 1, events_during_cooldown := True,
                                  status_message := ''Refreshed''\<rparr>)"
    by (simp add: check_watcher_def cooldown_def example_state_def)
  have s3: "check_watcher (example_state\<lparr>last_refresh_time := 1, events_during_cooldown := True,
                                  status_message := ''Refreshed''\<rparr>) 2 False (0, example_stdout, []) 2
      = Inr (True, example_state\<lparr>last_refresh_time := 2, events_during_cooldown := False,
                                  status_message := ''Refreshed''\<rparr>)"
    by (simp add: check_watcher_def cooldown_def refresh_example_state)
      (simp add: example_state_def)
  have "run_watcher example_state late_ticks
       = Inr ([1, 2], example_state\<lparr>last_refresh_time := 2, events_during_cooldown := False,
                                    status_message := ''Refreshed''\<rparr>)"
    by (simp add: late_ticks_def s1 s2 s3)
  moreover have "ticks_increasing 0 late_ticks"
    by (simp add: late_ticks_def)
  moreover have "\<not> (2 \<le> 1.1 + cooldown)"
    by (simp add: cooldown_def)
  ultimately show ?thesis by blast
qed

text \<open>
  Claim C4, amended. Let the watcher run, from a state that satisfies the list
  invariant. For every sequence of checks at times that never go back, every check
  returns and any two refreshes are at least one cooldown apart. If events arrive
  during a cooldown, the checks inside it do not refresh and set the pending flag;
  the first check made after the cooldown has expired refreshes exactly once and
  clears the flag. Events seen outside a cooldown are refreshed by that same check
  (leading edge); a check with no events and no pending flag does nothing; and after
  any check the pending flag stands only while the cooldown has not expired at that
  check. How long after the last event the trailing refresh happens is the time until
  that next check: the watcher sets no bound on it.
\<close>

theorem watcher_debounce:
  assumes w: "watcher_proc s" and inv: "list_inv s"
  shows "(ticks_increasing t ticks \<and> last_refresh_time s \<le> t \<longrightarrow>
            (\<exists>rs s'. run_watcher s ticks = Inr (rs, s')
                \<and> sorted_wrt (\<lambda>a b. a + cooldown \<le> b) rs))
     \<and> ((\<forall>tk \<in> set pre. fst tk - last_refresh_time s < cooldown)
          \<and> (events_during_cooldown s \<or> (\<exists>tk \<in> set pre. fst (snd tk)))
          \<and> \<not> now - last_refresh_time s < cooldown \<longrightarrow>
            (\<exists>s'. run_watcher s (pre @ [(now, ev, r, now2)]) = Inr ([now], s')
                \<and> \<not> events_during_cooldown s' \<and> last_refresh_time s' = now2))
     \<and> (ev \<and> \<not> now - last_refresh_time s < cooldown \<longrightarrow>
            (\<exists>s'. check_watcher s now ev r now2 = Inr (True, s')
                \<and> \<not> events_during_cooldown s' \<and> last_refresh_time s' = now2))
     \<and> (ev \<and> now - last_refresh_time s < cooldown \<longrightarrow>
            check_watcher s now ev r now2 = Inr (False, s\<lparr>events_during_cooldown := True\<rparr>))
     \<and> (\<not> ev \<and> \<not> events_during_cooldown s \<longrightarrow>
            check_watcher s now ev r now2 = Inr (False, s))
     \<and> (\<exists>b s'. check_watcher s now ev r now2 = Inr (b, s')
            \<and> (events_during_cooldown s' \<longrightarrow> \<not> b \<and> now - last_refresh_time s' < cooldown))"
proof -
  have a: "ticks_increasing t ticks \<and> last_refresh_time s \<le> t \<longrightarrow>
            (\<exists>rs s'. run_watcher s ticks = Inr (rs, s')
                \<and> sorted_wrt (\<lambda>a b. a + cooldown \<le> b) rs)"
    using run_watcher_spaced [OF w inv, of t ticks] by blast
  have b: "(\<forall>tk \<in> set pre. fst tk - last_refresh_time s < cooldown)
          \<and> (events_during_cooldown s \<or> (\<exists>tk \<in> set pre. fst (snd tk)))
          \<and> \<not> now - last_refresh_time s < cooldown \<longrightarrow>
            (\<exists>s'. run_watcher s (pre @ [(now, ev, r, now2)]) = Inr ([now], s')
                \<and> \<not> events_during_cooldown s' \<and> last_refresh_time s' = now2)"
    using run_watcher_trailing [OF w inv, of pre now ev r now2] by blast
  note cases = check_watcher_cases [OF w inv, of now ev r now2]
  have c: "ev \<and> \<not> now - last_refresh_time s < cooldown \<longrightarrow>
            (\<exists>s'. check_watcher s now ev r now2 = Inr (True, s')
                \<and> \<not> events_during_cooldown s' \<and> last_refresh_time s' = now2)"
    using cases by blast
  have d: "ev \<and> now - last_refresh_time s < cooldown \<longrightarrow>
            check_watcher s now ev r now2 = Inr (False, s\<lparr>events_during_cooldown := True\<rparr>)"
    using cases by blast
  have e: "\<not> ev \<and> \<not> events_during_cooldown s \<longrightarrow>
            check_watcher s now ev r now2 = Inr (False, s)"
    using cases by blast
  have f: "\<exists>b s'. check_watcher s now ev r now2 = Inr (b, s')
            \<and> (events_during_cooldown s' \<longrightarrow> \<not> b \<and> now - last_refresh_time s' < cooldown)"
    using cases by auto
  from a b c d e f show ?thesis by blast
qed

theorem watcher_debounce_witness:
  "watcher_proc example_state \<and> list_inv example_state
   \<and> ticks_increasing 0 late_ticks \<and> last_refresh_time example_state \<le> 0
   \<and> (\<exists>rs s'. run_watcher example_state late_ticks = Inr (rs, s')
          \<and> sorted_wrt (\<lambda>a b. a + cooldown \<le> b) rs)
   \<and> \<not> (1::real) - last_refresh_time example_state < cooldown
   \<and> (\<exists>s'. check_watcher example_state 1 True (0, example_stdout, []) 1 = Inr (True, s')
          \<and> \<not> events_during_cooldown s' \<and> last_refresh_time s' = 1)
   \<and> watcher_proc cooling_state \<and> list_inv cooling_state
   \<and> 1.1 - last_refresh_time cooling_state < cooldown
   \<and> \<not> 2 - last_refresh_time cooling_state < cooldown
   \<and> check_watcher cooling_state 1.1 True (0, example_stdout, []) 1.1
       = Inr (False, cooling_state\<lparr>events_during_cooldown := True\<rparr>)
   \<and> (\<exists>s'. run_watcher cooling_state
               ([(1.1, True, (0, example_stdout, []), 1.1)] @ [(2, False, (0, example_stdout, []), 2)])
             = Inr ([2], s')
          \<and> \<not> events_during_cooldown s' \<and> last_refresh_time s' = 2)
   \<and> \<not> events_during_cooldown cooling_state
   \<and> check_watcher cooling_state 3 False (0, example_stdout, []) 3 = Inr (False, cooling_state)"
proof -
  have w: "watcher_proc example_state"
    by (simp add: example_state_def)
  have t: "ticks_increasing 0 late_ticks"
    by (simp add: late_ticks_def)
  have l: "last_refresh_time example_state \<le> 0"
    by (simp add: example_state_def)
  have n: "\<not> (1::real) - last_refresh_time example_state < cooldown"
    by (simp add: example_state_def cooldown_def)
  have w': "watcher_proc cooling_state"
    by (simp add: cooling_state_def example_state_def)
  have inv': "list_inv cooling_state"
    using list_inv_example_state by (simp add: cooling_state_def)
  have cd: "1.1 - last_refresh_time cooling_state < cooldown"
    by (simp add: cooling_state_def cooldown_def)
  have pre: "\<forall>tk \<in> set [(1.1, True, (0::int, example_stdout, [] :: string), 1.1 :: real)].
      fst tk - last_refresh_time cooling_state < cooldown"
    using cd by simp
  have ev: "events_during_cooldown cooling_state
      \<or> (\<exists>tk \<in> set [(1.1 :: real, True, (0::int, example_stdout, [] :: string), 1.1 :: real)].
            fst (snd tk))"
    by simp
  have ex: "\<not> 2 - last_refresh_time cooling_state < cooldown"
    by (simp add: cooling_state_def cooldown_def)
  have np: "\<not> events_during_cooldown cooling_state"
    by (simp add: cooling_state_def example_state_def)
  note first = watcher_debounce [OF w list_inv_example_state, of 0 late_ticks "[]" 1 True
      "(0, example_stdout, [])" 1]
  note burst = watcher_debounce [OF w' inv', of 0 "[]"
      "[(1.1, True, (0, example_stdout, []), 1.1)]" 2 False "(0, example_stdout, [])" 2]
  note swallow = watcher_debounce [OF w' inv', of 0 "[]" "[]" "1.1" True "(0, example_stdout, [])" "1.1"]
  note idle = watcher_debounce [OF w' inv', of 0 "[]" "[]" 3 False "(0, example_stdout, [])" 3]
  have a: "(\<exists>rs s'. run_watcher example_state late_ticks = Inr (rs, s')
          \<and> sorted_wrt (\<lambda>a b. a + cooldown \<le> b) rs)
      \<and> (\<exists>s'. check_watcher example_state 1 True (0, example_stdout, []) 1 = Inr (True, s')
          \<and> \<not> events_during_cooldown s' \<and> last_refresh_time s' = 1)"
    using first t l n by blast
  have b: "\<exists>s'. run_watcher cooling_state
               ([(1.1, True, (0, example_stdout, []), 1.1)] @ [(2, False, (0, example_stdout, []), 2)])
             = Inr ([2], s')
          \<and> \<not> events_during_cooldown s' \<and> last_refresh_time s' = 2"
    using burst pre ev ex by blast
  have c: "check_watcher cooling_state 1.1 True (0, example_stdout, []) 1.1
       = Inr (False, cooling_state\<lparr>events_during_cooldown := True\<rparr>)"
    using swallow cd by blast
  have d: "check_watcher cooling_state 3 False (0, example_stdout, []) 3 = Inr (False, cooling_state)"
    using idle np by blast
  from w list_inv_example_state t l n w' inv' cd ex np a b c d show ?thesis
    by blast
qed

section \<open>Scrolling up shows the section heading\<close>

text \<open>
  Claim C5, as stated, says that whenever the cursor's display line is above the
  scroll offset the new scroll offset is the display line of the cursor's section
  heading. It fails for the offset that \<open>draw_file_list\<close> leaves behind: the record
  list has shrunk to two unstaged files, the offset 8 of the longer list is above the
  cursor's line 3, the heading is line 2, and the final clamp brings the offset to 0
  since all seven lines fit the window.
\<close>

theorem scroll_up_clamped_counterexample:
  "find_cursor (display_lines (files shrunk_state)) (cursor_pos shrunk_state) 0 = (3, 2)
   \<and> 3 < scroll_offset shrunk_state
   \<and> scroll_offset (draw_file_list shrunk_state 24) = 0
   \<and> scroll_offset (draw_file_list shrunk_state 24) \<noteq> 2"
  by (simp add: draw_file_list_def find_cursor_shrunk)
    (simp add: shrunk_state_def example_state_def display_lines_def)

text \<open>
  Claim C5, amended. Let the cursor be on a record of the flattened list. Its display
  line \<open>h + 1 + d\<close> holds that record, the line \<open>h\<close> is a section heading and the
  lines between them are file lines, so \<open>h\<close> is the nearest heading before the cursor.
  Whenever the cursor's display line is above the scroll offset, the offset is set to
  the heading's line and then clamped: the new offset is the smaller of \<open>h\<close> and
  \<open>max(0, total_display_lines - viewport_height)\<close>. It is \<open>h\<close> itself, not the
  cursor's line, whenever the prior offset was inside that bound, and with at least
  one visible line the heading is inside the window in every case.
\<close>

theorem scroll_up_reveals_heading:
  assumes cp: "0 \<le> cursor_pos s" "cursor_pos s < int (length (get_ordered_files (files s)))"
  shows "\<exists>h d t.
     find_cursor (display_lines (files s)) (cursor_pos s) 0 = (int h + 1 + int d, int h)
     \<and> display_lines (files s) ! h = (Inl t, None, None) \<and> t \<in> headings
     \<and> (\<forall>j \<le> d. fst (snd (display_lines (files s) ! (h + 1 + j))) \<noteq> None)
     \<and> display_lines (files s) ! (h + 1 + d)
         = (Inr (get_ordered_files (files s) ! nat (cursor_pos s)), Some (cursor_pos s),
            Some (int h))
     \<and> (int h + 1 + int d < scroll_offset s \<longrightarrow>
          scroll_offset (draw_file_list s hgt)
            = min (int h) (max 0 (int (length (display_lines (files s))) - (hgt - 4)))
          \<and> (scroll_offset s \<le> max 0 (int (length (display_lines (files s))) - (hgt - 4)) \<longrightarrow>
               scroll_offset (draw_file_list s hgt) = int h)
          \<and> (5 \<le> hgt \<longrightarrow>
               scroll_offset (draw_file_list s hgt) \<le> int h
               \<and> int h \<le> scroll_offset (draw_file_list s hgt) + (hgt - 4) - 1))"
proof -
  let ?lines = "display_lines (files s)"
  from cursor_line_header [OF cp] obtain h d t where
    fc: "find_cursor ?lines (cursor_pos s) 0 = (int h + 1 + int d, int h)"
    and d: "d \<le> nat (cursor_pos s)"
    and len: "h + 1 + d < length ?lines"
    and hd: "?lines ! h = (Inl t, None, None)" "t \<in> headings"
    and fl: "\<forall>j \<le> d. ?lines ! (h + 1 + j)
                 = (Inr (get_ordered_files (files s) ! (nat (cursor_pos s) - d + j)),
                    Some (cursor_pos s - int d + int j), Some (int h))"
    by blast
  have between: "\<forall>j \<le> d. fst (snd (?lines ! (h + 1 + j))) \<noteq> None"
    using fl by simp
  have cur: "?lines ! (h + 1 + d)
         = (Inr (get_ordered_files (files s) ! nat (cursor_pos s)), Some (cursor_pos s),
            Some (int h))"
    using fl d by simp
  have scroll: "scroll_offset (draw_file_list s hgt)
            = min (int h) (max 0 (int (length ?lines) - (hgt - 4)))"
    if "int h + 1 + int d < scroll_offset s"
    using that fc by (simp add: draw_file_list_def Let_def)
  have inrange: "scroll_offset (draw_file_list s hgt) = int h"
    if "int h + 1 + int d < scroll_offset s"
      "scroll_offset s \<le> max 0 (int (length ?lines) - (hgt - 4))"
    using scroll [OF that(1)] that by linarith
  have visible: "scroll_offset (draw_file_list s hgt) \<le> int h
               \<and> int h \<le> scroll_offset (draw_file_list s hgt) + (hgt - 4) - 1"
    if "int h + 1 + int d < scroll_offset s" "5 \<le> hgt"
    using scroll [OF that(1)] that(2) len by linarith
  from fc hd between cur scroll inrange visible show ?thesis
    by blast
qed

theorem scroll_up_reveals_heading_witness:
  "0 \<le> cursor_pos scrolled_state
   \<and> cursor_pos scrolled_state < int (length (get_ordered_files (files scrolled_state)))
   \<and> find_cursor (display_lines (files scrolled_state)) (cursor_pos scrolled_state) 0 = (4, 3)
   \<and> display_lines (files scrolled_state) ! 3 = (Inl ''Changes not staged for commit:'', None, None)
   \<and> 4 < scroll_offset scrolled_state
   \<and> scroll_offset scrolled_state
       \<le> max 0 (int (length (display_lines (files scrolled_state))) - (6 - 4))
   \<and> scroll_offset (draw_file_list scrolled_state 6) = 3"
proof -
  have h1: "0 \<le> cursor_pos scrolled_state"
    by (simp add: scrolled_state_def example_state_def)
  have h2: "cursor_pos scrolled_state < int (length (get_ordered_files (files scrolled_state)))"
    by (simp add: scrolled_state_def example_state_def get_ordered_files_def)
  have l3: "display_lines (files scrolled_state) ! 3
      = (Inl ''Changes not staged for commit:'', None, None)"
    by (simp add: scrolled_state_def example_state_def display_lines_def)
  have so: "4 < scroll_offset scrolled_state
   \<and> scroll_offset scrolled_state
       \<le> max 0 (int (length (display_lines (files scrolled_state))) - (6 - 4))"
    by (simp add: scrolled_state_def example_state_def display_lines_def)
  have ev: "scroll_offset (draw_file_list scrolled_state 6) = 3"
    by (simp add: draw_file_list_def find_cursor_scrolled)
      (simp add: scrolled_state_def example_state_def display_lines_def)
  from h1 h2 l3 so ev find_cursor_scrolled
    scroll_up_reveals_heading [OF h1 h2, of 6]
  show ?thesis by blast
qed

section \<open>The cursor can leave the window when scrolling up\<close>

text \<open>
  Claim C6 says that after the scroll reconciliation the cursor's display line lies in
  \<open>[scroll_offset, scroll_offset + viewport_height - 1]\<close>. The code misses it when the
  cursor moves above the window inside a section longer than the window. Twelve
  staged files, terminal height 10 (six visible lines), cursor on file 8 at the top
  of the window (offset 9): this state is stable under rendering. One key up puts the
  cursor on file 7, display line 8; the next render sets the offset to the heading,
  line 0, and the window \<open>[0, 5]\<close> does not hold line 8.
\<close>

theorem cursor_scrolls_out_of_view:
  "draw_file_list top_of_window_state 10 = top_of_window_state
   \<and> handle_list_input top_of_window_state KEY_UP small_env
       = Inr (True, top_of_window_state\<lparr>cursor_pos := 7, status_message := []\<rparr>)
   \<and> find_cursor (display_lines (files (top_of_window_state\<lparr>cursor_pos := 7, status_message := []\<rparr>)))
        7 0 = (8, 0)
   \<and> scroll_offset (draw_file_list (top_of_window_state\<lparr>cursor_pos := 7, status_message := []\<rparr>) 10)
       = 0
   \<and> \<not> (8 \<le> (0::int) + (10 - 4) - 1)"
  by (simp add: draw_file_list_def top_of_window_state_def example_state_def
      find_cursor_twelve_8 find_cursor_twelve_7 length_display_twelve
      handle_list_input_def key_defs small_env_def example_env_def)

section \<open>The flattened ordering keeps three groups in input order\<close>

text \<open>
  Claim C7. For any record list the flattened ordering is the staged records, then the
  unstaged tracked records, then the untracked records. Each group is a subsequence of
  the input, so inside a group the records stand in the order of the input and nothing
  is sorted further. A staged record and an unstaged record of the input, such as the
  two entries of a partially staged file, both occur in the result, the staged one at
  a smaller position.
\<close>

theorem get_ordered_files_groups:
  "get_ordered_files fs =
     filter staged fs
     @ filter (\<lambda>f. \<not> staged f \<and> status f \<noteq> ''untracked'') fs
     @ filter (\<lambda>f. status f = ''untracked'') fs
   \<and> subseq (filter staged fs) fs
   \<and> subseq (filter (\<lambda>f. \<not> staged f \<and> status f \<noteq> ''untracked'') fs) fs
   \<and> subseq (filter (\<lambda>f. status f = ''untracked'') fs) fs
   \<and> (\<forall>f g. f \<in> set fs \<and> g \<in> set fs \<and> staged f \<and> \<not> staged g \<longrightarrow>
         (\<exists>i j. i < j \<and> j < length (get_ordered_files fs)
                \<and> get_ordered_files fs ! i = f \<and> get_ordered_files fs ! j = g))"
proof -
  let ?A = "filter staged fs"
  let ?B = "filter (\<lambda>f. \<not> staged f \<and> status f \<noteq> ''untracked'') fs"
  let ?C = "filter (\<lambda>f. status f = ''untracked'') fs"
  have eq: "get_ordered_files fs = ?A @ ?B @ ?C"
    by (simp add: get_ordered_files_def)
  have before: "\<exists>i j. i < j \<and> j < length (get_ordered_files fs)
                \<and> get_ordered_files fs ! i = f \<and> get_ordered_files fs ! j = g"
    if f: "f \<in> set fs" "staged f" and g: "g \<in> set fs" "\<not> staged g" for f g
  proof -
    from f have "f \<in> set ?A" by simp
    then obtain i where i: "i < length ?A" "?A ! i = f"
      by (auto simp only: in_set_conv_nth)
    from g have "g \<in> set (?B @ ?C)" by auto
    then obtain k where k: "k < length (?B @ ?C)" "(?B @ ?C) ! k = g"
      by (auto simp only: in_set_conv_nth)
    have "i < length ?A + k" using i by simp
    moreover have "length ?A + k < length (get_ordered_files fs)"
      using k unfolding eq by simp
    moreover have "get_ordered_files fs ! i = f"
      using i unfolding eq by (simp add: nth_append)
    moreover have "get_ordered_files fs ! (length ?A + k) = g"
      using k unfolding eq by (simp only: nth_append_length_plus)
    ultimately show ?thesis by blast
  qed
  show ?thesis
    using eq before by (simp only: subseq_filter_left) blast
qed

theorem get_ordered_files_groups_witness:
  "get_ordered_files
     [\<lparr>status = ''untracked'', path = ''b.txt'', staged = False\<rparr>,
      \<lparr>status = ''modified'', path = ''a.txt'', staged = False\<rparr>,
      \<lparr>status = ''modified'', path = ''a.txt'', staged = True\<rparr>]
   = [\<lparr>status = ''modified'', path = ''a.txt'', staged = True\<rparr>,
      \<lparr>status = ''modified'', path = ''a.txt'', staged = False\<rparr>,
      \<lparr>status = ''untracked'', path = ''b.txt'', staged = False\<rparr>]
   \<and> (\<exists>i j. i < j \<and> j < 3
        \<and> get_ordered_files
             [\<lparr>status = ''untracked'', path = ''b.txt'', staged = False\<rparr>,
              \<lparr>status = ''modified'', path = ''a.txt'', staged = False\<rparr>,
              \<lparr>status = ''modified'', path = ''a.txt'', staged = True\<rparr>] ! i
            = \<lparr>status = ''modified'', path = ''a.txt'', staged = True\<rparr>
        \<and> get_ordered_files
             [\<lparr>status = ''untracked'', path = ''b.txt'', staged = False\<rparr>,
              \<lparr>status = ''modified'', path = ''a.txt'', staged = False\<rparr>,
              \<lparr>status = ''modified'', path = ''a.txt'', staged = True\<rparr>] ! j
            = \<lparr>status = ''modified'', path = ''a.txt'', staged = False\<rparr>)"
proof -
  let ?fs = "[\<lparr>status = ''untracked'', path = ''b.txt'', staged = False\<rparr>,
      \<lparr>status = ''modified'', path = ''a.txt'', staged = False\<rparr>,
      \<lparr>status = ''modified'', path = ''a.txt'', staged = True\<rparr>]"
  let ?f = "\<lparr>status = ''modified'', path = ''a.txt'', staged = True\<rparr>"
  let ?g = "\<lparr>status = ''modified'', path = ''a.txt'', staged = False\<rparr>"
  note t = get_ordered_files_groups [of ?fs]
  have len: "length (get_ordered_files ?fs) = 3"
    by (simp add: get_ordered_files_def)
  have "?f \<in> set ?fs \<and> ?g \<in> set ?fs \<and> staged ?f \<and> \<not> staged ?g"
    by simp
  with t have "\<exists>i j. i < j \<and> j < length (get_ordered_files ?fs)
                \<and> get_ordered_files ?fs ! i = ?f \<and> get_ordered_files ?fs ! j = ?g"
    by blast
  with len have ex: "\<exists>i j. i < j \<and> j < 3
                \<and> get_ordered_files ?fs ! i = ?f \<and> get_ordered_files ?fs ! j = ?g"
    by simp
  have "get_ordered_files ?fs = [?f, ?g, \<lparr>status = ''untracked'', path = ''b.txt'', staged = False\<rparr>]"
    using t by simp
  with ex show ?thesis by blast
qed

section \<open>The scroll of the diff view\<close>

text \<open>
  Claim C8, as stated, asks for the bound \<open>0 \<le> diff_scroll \<le> max(0, line_count -
  viewport_height)\<close> after every scroll step for any prior scroll value and any height.
  It fails: a scroll value that was inside the bound at the last render (height 24) is
  above the bound of the taller terminal (height 60) in which the key is handled, and
  one line up leaves it above that bound.
\<close>

theorem diff_scroll_step_counterexample:
  "scroll_in_range (draw_diff_view diff_state 24) 24
   \<and> diff_scroll (draw_diff_view diff_state 24) = 10
   \<and> handle_diff_input (draw_diff_view diff_state 24) KEY_UP tall_env
       = Inr (True, diff_state\<lparr>diff_scroll := 9\<rparr>)
   \<and> \<not> scroll_in_range (diff_state\<lparr>diff_scroll := 9\<rparr>) (height tall_env)"
  by (simp add: scroll_in_range_def draw_diff_view_def diff_state_def tall_env_def
      example_env_def example_state_def handle_diff_input_def key_defs)

text \<open>
  Claim C8, amended. Every render leaves \<open>diff_scroll\<close> inside the bound, for any
  content, height and prior value. A scroll step (line up or down, page up or down)
  keeps the bound when the prior value was inside it for the same terminal height and
  that height is at least 3, so that the viewport height is not negative; each step
  clamps only the side it moves towards. Showing the diff of the selected file stores
  the new content with \<open>diff_scroll = 0\<close>, and every key handler either leaves the
  diff content as it was or replaces it together with \<open>diff_scroll = 0\<close>.
\<close>

theorem diff_scroll_bounds:
  "scroll_in_range (draw_diff_view s h) h
   \<and> diff_content (draw_diff_view s h) = diff_content s
   \<and> (3 \<le> height e \<and> scroll_in_range s (height e)
        \<and> (k = KEY_UP \<or> k = KEY_DOWN \<or> k = KEY_PPAGE \<or> k = KEY_NPAGE) \<longrightarrow>
        (\<exists>s'. handle_diff_input s k e = Inr (True, s') \<and> diff_content s' = diff_content s
              \<and> scroll_in_range s' (height e)))
   \<and> (0 \<le> cursor_pos s \<and> cursor_pos s < int (length (files s)) \<longrightarrow>
        handle_list_input s (ord CHR ''d'') e =
          Inr (True, s\<lparr>diff_content := file_diff e, diff_scroll := 0,
                        mode := ''diff'', status_message := []\<rparr>))
   \<and> (handle_list_input s k e = Inr (b, s') \<longrightarrow>
        diff_content s' = diff_content s
        \<or> diff_content s' = file_diff e \<and> diff_scroll s' = 0)
   \<and> (handle_diff_input s k e = Inr (b, s') \<longrightarrow>
        diff_content s' = diff_content s
        \<or> diff_content s' = file_diff e \<and> diff_scroll s' = 0)"
proof -
  have a: "scroll_in_range (draw_diff_view s h) h"
    by (rule draw_diff_view_in_range)
  have b: "diff_content (draw_diff_view s h) = diff_content s"
    by (simp add: draw_diff_view_def Let_def)
  have c: "3 \<le> height e \<and> scroll_in_range s (height e)
        \<and> (k = KEY_UP \<or> k = KEY_DOWN \<or> k = KEY_PPAGE \<or> k = KEY_NPAGE) \<longrightarrow>
        (\<exists>s'. handle_diff_input s k e = Inr (True, s') \<and> diff_content s' = diff_content s
              \<and> scroll_in_range s' (height e))"
    using diff_step_in_range [of e s k] by blast
  have d: "0 \<le> cursor_pos s \<and> cursor_pos s < int (length (files s)) \<longrightarrow>
        handle_list_input s (ord CHR ''d'') e =
          Inr (True, s\<lparr>diff_content := file_diff e, diff_scroll := 0,
                        mode := ''diff'', status_message := []\<rparr>)"
    using show_diff_key [of s e] by blast
  have e: "handle_list_input s k e = Inr (b, s') \<longrightarrow>
        diff_content s' = diff_content s
        \<or> diff_content s' = file_diff e \<and> diff_scroll s' = 0"
    using handle_list_input_reset [of s k e b s'] by blast
  have f: "handle_diff_input s k e = Inr (b, s') \<longrightarrow>
        diff_content s' = diff_content s
        \<or> diff_content s' = file_diff e \<and> diff_scroll s' = 0"
    using handle_diff_input_reset [of s k e b s'] by blast
  from a b c d e f show ?thesis by blast
qed

theorem diff_scroll_bounds_witness:
  "3 \<le> height example_env
   \<and> scroll_in_range diff_state (height example_env)
   \<and> (\<exists>s'. handle_diff_input diff_state KEY_UP example_env = Inr (True, s')
          \<and> diff_scroll s' = 9 \<and> scroll_in_range s' (height example_env))
   \<and> 0 \<le> cursor_pos diff_state \<and> cursor_pos diff_state < int (length (files diff_state))
   \<and> handle_list_input diff_state (ord CHR ''d'') example_env =
        Inr (True, diff_state\<lparr>diff_content := file_diff example_env, diff_scroll := 0,
                      mode := ''diff'', status_message := []\<rparr>)"
proof -
  have h1: "3 \<le> height example_env"
    by (simp add: example_env_def)
  have h2: "scroll_in_range diff_state (height example_env)"
    by (simp add: scroll_in_range_def diff_state_def example_env_def)
  have h3: "0 \<le> cursor_pos diff_state \<and> cursor_pos diff_state < int (length (files diff_state))"
    by (simp add: diff_state_def example_state_def)
  have ev: "\<exists>s'. handle_diff_input diff_state KEY_UP example_env = Inr (True, s')
          \<and> diff_scroll s' = 9 \<and> scroll_in_range s' (height example_env)"
    by (simp add: handle_diff_input_def key_defs scroll_in_range_def diff_state_def
        example_env_def)
  from h1 h2 h3 ev
    diff_scroll_bounds [of diff_state 24 example_env KEY_UP True diff_state]
  show ?thesis by blast
qed

section \<open>Failed commands leave the model as it was\<close>

text \<open>
  Claim C9. When the status query returns a non-zero code, \<open>parse_git_status\<close> changes
  nothing of the state but the status message: the record list and the cursor stay
  those of the last successful derivation. A stage or unstage command that fails only
  sets the status message too, and never writes the record list.
\<close>

theorem failed_command_only_sets_message:
  "returncode \<noteq> 0 \<Longrightarrow>
     parse_git_status s (returncode, out, err) = s\<lparr>status_message := ''Error: '' @ err\<rparr>
     \<and> files (parse_git_status s (returncode, out, err)) = files s
     \<and> cursor_pos (parse_git_status s (returncode, out, err)) = cursor_pos s
     \<and> stage_file s f (returncode, out, err) = s\<lparr>status_message := ''Error staging: '' @ err\<rparr>
     \<and> unstage_file s f (returncode, out, err)
         = s\<lparr>status_message := ''Error unstaging: '' @ err\<rparr>
     \<and> files (stage_file s f (returncode, out, err)) = files s
     \<and> files (unstage_file s f (returncode, out, err)) = files s"
  by (simp add: parse_git_status_def stage_file_def unstage_file_def)

theorem failed_command_only_sets_message_witness:
  "(128::int) \<noteq> 0
   \<and> files (parse_git_status example_state (128, [], ''fatal: not a git repository''))
       = files example_state
   \<and> cursor_pos (parse_git_status example_state (128, [], ''fatal: not a git repository'')) = 1
   \<and> status_message (parse_git_status example_state (128, [], ''fatal: not a git repository''))
       = ''Error: fatal: not a git repository''
   \<and> status_message (stage_file example_state (files example_state ! 1)
                        (128, [], ''fatal: not a git repository''))
       = ''Error staging: fatal: not a git repository''"
proof -
  have h: "(128::int) \<noteq> 0" by simp
  show ?thesis
    using h failed_command_only_sets_message
      [OF h, of example_state "[]" "''fatal: not a git repository''" "files example_state ! 1"]
    by (simp add: example_state_def)
qed

section \<open>The parser never yields a staged untracked record\<close>

text \<open>
  Claim C10. Every record list the status parser produces has no record that is staged
  and has the status \<open>untracked\<close>. So each of its records satisfies exactly one of the
  three group filters of the flattened ordering, and the flattened list is a
  permutation of the record list: the same multiset of records and the same length.
  The record list of the state keeps this through every status query, failed or not.
\<close>

theorem parser_groups_partition:
  "(\<forall>f \<in> set (parse_stdout out). \<not> (staged f \<and> status f = ''untracked''))
   \<and> (\<forall>f \<in> set (parse_stdout out).
         (staged f \<and> \<not> (\<not> staged f \<and> status f \<noteq> ''untracked'') \<and> status f \<noteq> ''untracked'')
       \<or> (\<not> staged f \<and> (\<not> staged f \<and> status f \<noteq> ''untracked'') \<and> status f \<noteq> ''untracked'')
       \<or> (\<not> staged f \<and> \<not> (\<not> staged f \<and> status f \<noteq> ''untracked'') \<and> status f = ''untracked''))
   \<and> mset (get_ordered_files (parse_stdout out)) = mset (parse_stdout out)
   \<and> length (get_ordered_files (parse_stdout out)) = length (parse_stdout out)
   \<and> ((\<forall>f \<in> set (files s). \<not> (staged f \<and> status f = ''untracked''))
        \<longrightarrow> (\<forall>f \<in> set (files (parse_git_status s r)). \<not> (staged f \<and> status f = ''untracked''))
            \<and> mset (get_ordered_files (files (parse_git_status s r)))
                = mset (files (parse_git_status s r)))"
proof -
  have wf: "wf_files (parse_stdout out)"
    by (rule wf_parse_stdout)
  then have a: "\<forall>f \<in> set (parse_stdout out). \<not> (staged f \<and> status f = ''untracked'')"
    by (simp add: wf_files_def list_all_iff)
  then have b: "\<forall>f \<in> set (parse_stdout out).
         (staged f \<and> \<not> (\<not> staged f \<and> status f \<noteq> ''untracked'') \<and> status f \<noteq> ''untracked'')
       \<or> (\<not> staged f \<and> (\<not> staged f \<and> status f \<noteq> ''untracked'') \<and> status f \<noteq> ''untracked'')
       \<or> (\<not> staged f \<and> \<not> (\<not> staged f \<and> status f \<noteq> ''untracked'') \<and> status f = ''untracked'')"
    by blast
  have c: "mset (get_ordered_files (parse_stdout out)) = mset (parse_stdout out)"
    using wf by (rule mset_get_ordered_files)
  have d: "length (get_ordered_files (parse_stdout out)) = length (parse_stdout out)"
    using wf by (rule length_get_ordered_files)
  have e: "(\<forall>f \<in> set (files s). \<not> (staged f \<and> status f = ''untracked''))
        \<longrightarrow> (\<forall>f \<in> set (files (parse_git_status s r)). \<not> (staged f \<and> status f = ''untracked''))
            \<and> mset (get_ordered_files (files (parse_git_status s r)))
                = mset (files (parse_git_status s r))"
    using wf_parse_git_status [of s r] mset_get_ordered_files [of "files (parse_git_status s r)"]
    by (simp add: wf_files_def list_all_iff)
  from a b c d e show ?thesis by blast
qed

theorem parser_groups_partition_witness:
  "parse_stdout example_stdout =
     [\<lparr>status = ''modified'', path = ''a.txt'', staged = True\<rparr>,
      \<lparr>status = ''modified'', path = ''a.txt'', staged = False\<rparr>,
      \<lparr>status = ''untracked'', path = ''b.txt'', staged = False\<rparr>]
   \<and> \<not> (staged (parse_stdout example_stdout ! 2)
          \<and> status (parse_stdout example_stdout ! 2) = ''untracked'')
   \<and> length (get_ordered_files (parse_stdout example_stdout)) = 3
   \<and> mset (get_ordered_files (files (parse_git_status example_state (0, example_stdout, []))))
        = mset (parse_stdout example_stdout)"
  using parser_groups_partition [of example_stdout example_state "(0, example_stdout, [])"]
  by (simp add: parse_example_stdout example_state_def parse_git_status_def)

end
